theory Spec2Isabelle
  imports Main "HOL-Library.Log_Nat"
begin

section \<open>The Stockfish docker client (python\_client/client.py)\<close>

text \<open>
  A shallow embedding of \<^verbatim>\<open>StockfishDockerClient\<close>: the readiness probe
  \<^verbatim>\<open>is_service_ready\<close>, the info-line parser \<^verbatim>\<open>_parse_evaluation\<close> and the
  session \<^verbatim>\<open>_query_engine\<close>.  Python strings are \<open>string\<close>, a character being a
  code point below 256; Python integers are \<open>int\<close>; an exception is a value of
  \<open>py_error\<close> on the left of a sum.  What the subprocess does (whether it starts,
  the lines it prints, how it exits) is an explicit environment record.
\<close>

subsection \<open>Python exceptions\<close>

datatype py_error =
    RuntimeError string
  | OverflowError
  | ZeroDivisionError
  | FileNotFoundError
  | CalledProcessError
  | BrokenPipeError
  | TimeoutExpired
  | OSError string
  | ValueError

subsection \<open>String primitives of the Python runtime\<close>

text \<open>
  \<^verbatim>\<open>str.split()\<close> and \<^verbatim>\<open>str.strip()\<close> without arguments cut at the characters for
  which \<^verbatim>\<open>str.isspace()\<close> holds.  Below code point 256 these are TAB, LF, VT, FF, CR,
  the separators 0x1C to 0x1F, the space, NEL (0x85) and the no-break space (0xA0).
\<close>

definition is_space :: "char \<Rightarrow> bool" where
  "is_space c = (c \<in> set [CHR 0x09, CHR 0x0A, CHR 0x0B, CHR 0x0C, CHR 0x0D,
                          CHR 0x1C, CHR 0x1D, CHR 0x1E, CHR 0x1F, CHR 0x20,
                          CHR 0x85, CHR 0xA0])"

definition py_strip :: "string \<Rightarrow> string" where
  "py_strip s = rev (dropWhile is_space (rev (dropWhile is_space s)))"

text \<open>
  \<^verbatim>\<open>s.split()\<close>: the maximal runs of non-whitespace characters, in order.  The first
  argument of \<open>split_from\<close> is the token being read.
\<close>

fun split_from :: "string \<Rightarrow> string \<Rightarrow> string list" where
  "split_from cur [] = (if cur = [] then [] else [cur])"
| "split_from cur (c # cs) =
     (if is_space c then (if cur = [] then split_from [] cs else cur # split_from [] cs)
      else split_from (cur @ [c]) cs)"

definition py_split :: "string \<Rightarrow> string list" where
  "py_split s = split_from [] s"

text \<open>\<^verbatim>\<open>sep.join(xs)\<close>.\<close>

fun py_join :: "string \<Rightarrow> string list \<Rightarrow> string" where
  "py_join sep [] = []"
| "py_join sep [x] = x"
| "py_join sep (x # y # ys) = x @ sep @ py_join sep (y # ys)"

definition py_startswith :: "string \<Rightarrow> string \<Rightarrow> bool" where
  "py_startswith s p = (take (length p) s = p)"

text \<open>\<^verbatim>\<open>xs.index(x)\<close>: the first position of \<open>x\<close>; \<open>None\<close> stands for ValueError.\<close>

fun py_index :: "'a list \<Rightarrow> 'a \<Rightarrow> nat option" where
  "py_index [] x = None"
| "py_index (y # ys) x = (if y = x then Some 0 else map_option Suc (py_index ys x))"

text \<open>\<^verbatim>\<open>xs[i]\<close> for a non-negative index; \<open>None\<close> stands for IndexError.\<close>

definition py_getitem :: "'a list \<Rightarrow> nat \<Rightarrow> 'a option" where
  "py_getitem xs i = (if i < length xs then Some (xs ! i) else None)"

text \<open>
  \<^verbatim>\<open>str.lower()\<close> on code points below 256: the ASCII capitals and the Latin-1
  capitals 0xC0 to 0xDE without the multiplication sign 0xD7 move up by 32.
\<close>

definition lower_char :: "char \<Rightarrow> char" where
  "lower_char c =
     (let n = (of_char c :: nat) in
      if (65 \<le> n \<and> n \<le> 90) \<or> (192 \<le> n \<and> n \<le> 222 \<and> n \<noteq> 215)
      then char_of (n + 32) else c)"

definition py_lower :: "string \<Rightarrow> string" where
  "py_lower s = map lower_char s"

subsection \<open>Integers and their decimal text\<close>

definition is_digit :: "char \<Rightarrow> bool" where
  "is_digit c = (c \<in> set ''0123456789'')"

definition digit_val :: "char \<Rightarrow> nat" where
  "digit_val c = of_char c - 48"

definition digits_value :: "string \<Rightarrow> nat" where
  "digits_value ds = foldl (\<lambda>a c. 10 * a + digit_val c) 0 ds"

text \<open>
  The digits of \<^verbatim>\<open>int(s)\<close> after the sign: decimal digits, with single underscores
  allowed between two digits.
\<close>

fun digitpart :: "string \<Rightarrow> bool" where
  "digitpart [] = False"
| "digitpart [c] = is_digit c"
| "digitpart (c # d # r) =
     (is_digit c \<and> (if d = CHR ''_'' then digitpart r else digitpart (d # r)))"

text \<open>
  The interpreter converts between \<^verbatim>\<open>int\<close> and decimal text only up to a number of
  digits, \<^verbatim>\<open>sys.get_int_max_str_digits()\<close>, and raises ValueError beyond it.  The
  program does not change the setting, so it has the interpreter's default.
\<close>

definition int_max_str_digits :: nat where
  "int_max_str_digits = 4300"

text \<open>
  The digit part is accepted when it is well formed and has no more digits than the
  limit; underscores and the sign do not count, leading zeros do.
\<close>

definition int_digits_ok :: "string \<Rightarrow> bool" where
  "int_digits_ok r = (digitpart r \<and> length (filter is_digit r) \<le> int_max_str_digits)"

text \<open>
  \<^verbatim>\<open>int(s)\<close> for a string without surrounding whitespace, base 10: an optional sign
  and a digit part.  \<open>None\<close> stands for ValueError.
\<close>

definition py_int :: "string \<Rightarrow> int option" where
  "py_int s =
     (case s of
        [] \<Rightarrow> None
      | c # r \<Rightarrow>
          (if c = CHR ''-'' then
             (if int_digits_ok r then Some (- int (digits_value (filter is_digit r))) else None)
           else if c = CHR ''+'' then
             (if int_digits_ok r then Some (int (digits_value (filter is_digit r))) else None)
           else
             (if int_digits_ok s then Some (int (digits_value (filter is_digit s))) else None)))"

definition digit_char :: "nat \<Rightarrow> char" where
  "digit_char n = ''0123456789'' ! n"

fun str_nat :: "nat \<Rightarrow> string" where
  "str_nat n = (if n < 10 then [digit_char n] else str_nat (n div 10) @ [digit_char (n mod 10)])"

text \<open>The decimal text of an integer: a minus sign for a negative one, and the digits.\<close>

definition str_int :: "int \<Rightarrow> string" where
  "str_int n = (if n < 0 then CHR ''-'' # str_nat (nat (- n)) else str_nat (nat n))"

text \<open>
  \<^verbatim>\<open>str(n)\<close> for an integer, as an f-string formats it: the decimal text, or
  ValueError when it has more digits than the limit.
\<close>

definition py_str_int :: "int \<Rightarrow> py_error + string" where
  "py_str_int n =
     (if int_max_str_digits < length (str_nat (nat \<bar>n\<bar>)) then Inl ValueError
      else Inr (str_int n))"

subsection \<open>Floating-point values\<close>

text \<open>
  A Python \<^verbatim>\<open>float\<close> is an IEEE 754 binary64 value.  A finite one is represented by
  the rational number it denotes (the two zeros are identified, as Python's \<^verbatim>\<open>==\<close>
  does); the other values are the two infinities and NaN.
\<close>

datatype pyfloat = Finite rat | PosInf | NegInf | NaN

text \<open>\<open>floor_log2 x\<close> is the exponent \<open>e\<close> with \<open>2^e \<le> x < 2^(e+1)\<close>, for \<open>x > 0\<close>.\<close>

definition floor_log2 :: "rat \<Rightarrow> int" where
  "floor_log2 x = (if 1 \<le> x then bitlen \<lfloor>x\<rfloor> - 1 else - bitlen (\<lceil>1 / x\<rceil> - 1))"

definition round_half_even :: "rat \<Rightarrow> int" where
  "round_half_even x =
     (let f = \<lfloor>x\<rfloor>; r = x - of_int f in
      if r < 1 / 2 then f else if 1 / 2 < r then f + 1 else if even f then f else f + 1)"

text \<open>
  Rounding a rational to the nearest binary64 value, ties to even.  A binary64
  number has 53 significant bits; the exponent of its last bit is no smaller than
  \<open>-1074\<close> (subnormal numbers); a magnitude that rounds to \<open>2^1024\<close> or more
  overflows to an infinity.  \<open>float_ulp x\<close> is the weight of the last bit kept for
  \<open>x\<close>, \<open>round_magnitude x\<close> the rounded absolute value.
\<close>

definition float_limit :: rat where
  "float_limit = 2 ^ 1024"

definition float_ulp :: "rat \<Rightarrow> rat" where
  "float_ulp x = 2 powi (max (floor_log2 \<bar>x\<bar>) (- 1022) - 52)"

definition round_magnitude :: "rat \<Rightarrow> rat" where
  "round_magnitude x = of_int (round_half_even (\<bar>x\<bar> / float_ulp x)) * float_ulp x"

definition round_to_double :: "rat \<Rightarrow> pyfloat" where
  "round_to_double x =
     (if x = 0 then Finite 0
      else if float_limit \<le> round_magnitude x then (if x < 0 then NegInf else PosInf)
      else Finite (if x < 0 then - round_magnitude x else round_magnitude x))"

text \<open>
  The least magnitude of an integer that rounds to \<open>2^1024\<close>: half a unit in the
  last place above the largest binary64 number.
\<close>

definition float_overflow_int :: int where
  "float_overflow_int = 2 ^ 1024 - 2 ^ 970"

text \<open>
  \<^verbatim>\<open>float(n)\<close> for an integer, as the division \<^verbatim>\<open>n / 100.0\<close> converts its left
  operand: OverflowError (``int too large to convert to float'') when the rounded
  value is out of range.
\<close>

definition int_to_float :: "int \<Rightarrow> py_error + pyfloat" where
  "int_to_float n =
     (case round_to_double (of_int n) of
        Finite q \<Rightarrow> Inr (Finite q)
      | _ \<Rightarrow> Inl OverflowError)"

text \<open>\<^verbatim>\<open>x / y\<close> on two floats.\<close>

fun float_truediv :: "pyfloat \<Rightarrow> pyfloat \<Rightarrow> py_error + pyfloat" where
  "float_truediv x (Finite b) =
     (if b = 0 then Inl ZeroDivisionError
      else Inr (case x of
                  Finite a \<Rightarrow> round_to_double (a / b)
                | PosInf \<Rightarrow> (if 0 < b then PosInf else NegInf)
                | NegInf \<Rightarrow> (if 0 < b then NegInf else PosInf)
                | NaN \<Rightarrow> NaN))"
| "float_truediv x NaN = Inr NaN"
| "float_truediv (Finite a) PosInf = Inr (Finite 0)"
| "float_truediv (Finite a) NegInf = Inr (Finite 0)"
| "float_truediv x y = Inr NaN"

text \<open>\<^verbatim>\<open>n / y\<close> for an integer \<open>n\<close> and a float \<open>y\<close>.\<close>

definition int_truediv_float :: "int \<Rightarrow> pyfloat \<Rightarrow> py_error + pyfloat" where
  "int_truediv_float n y =
     (case int_to_float n of Inl e \<Rightarrow> Inl e | Inr x \<Rightarrow> float_truediv x y)"

text \<open>
  \<^verbatim>\<open>float(s)\<close> for a string without surrounding whitespace.  An underscore must
  stand between two digits; then an optional sign is followed by \<^verbatim>\<open>inf\<close>,
  \<^verbatim>\<open>infinity\<close> or \<^verbatim>\<open>nan\<close> in any case, or by a decimal number with an optional
  exponent.  \<open>None\<close> stands for ValueError.
\<close>

fun underscores_ok :: "char \<Rightarrow> string \<Rightarrow> bool" where
  "underscores_ok prev [] = (prev \<noteq> CHR ''_'')"
| "underscores_ok prev (c # cs) =
     ((if c = CHR ''_'' then is_digit prev
       else if prev = CHR ''_'' then is_digit c else True)
      \<and> underscores_ok c cs)"

definition parse_exponent :: "string \<Rightarrow> int option" where
  "parse_exponent s =
     (let (neg, ds) =
            (case s of
               [] \<Rightarrow> (False, [])
             | c # r \<Rightarrow> if c = CHR ''-'' then (True, r)
                        else if c = CHR ''+'' then (False, r) else (False, s))
      in if ds \<noteq> [] \<and> list_all is_digit ds
         then Some (if neg then - int (digits_value ds) else int (digits_value ds))
         else None)"

definition parse_decimal :: "string \<Rightarrow> rat option" where
  "parse_decimal s =
     (let ip = takeWhile is_digit s;
          r1 = dropWhile is_digit s;
          (fp, r2) =
            (case r1 of
               [] \<Rightarrow> ([], [])
             | c # r \<Rightarrow> if c = CHR ''.'' then (takeWhile is_digit r, dropWhile is_digit r)
                        else ([], r1));
          mant = of_nat (digits_value (ip @ fp))
      in if ip = [] \<and> fp = [] then None
         else
           (case r2 of
              [] \<Rightarrow> Some (mant * 10 powi (- int (length fp)))
            | c # r3 \<Rightarrow>
                if c = CHR ''e'' \<or> c = CHR ''E'' then
                  (case parse_exponent r3 of
                     None \<Rightarrow> None
                   | Some ex \<Rightarrow> Some (mant * 10 powi (ex - int (length fp))))
                else None))"

definition py_float :: "string \<Rightarrow> pyfloat option" where
  "py_float s =
     (if \<not> underscores_ok (CHR 0x00) s then None
      else
        let t = filter (\<lambda>c. c \<noteq> CHR ''_'') s;
            (neg, body) =
              (case t of
                 [] \<Rightarrow> (False, [])
               | c # r \<Rightarrow> if c = CHR ''-'' then (True, r)
                          else if c = CHR ''+'' then (False, r) else (False, t))
        in if py_lower body = ''inf'' \<or> py_lower body = ''infinity''
           then Some (if neg then NegInf else PosInf)
           else if py_lower body = ''nan'' then Some NaN
           else
             (case parse_decimal body of
                None \<Rightarrow> None
              | Some q \<Rightarrow> Some (round_to_double (if neg then - q else q))))"

subsection \<open>The data model\<close>

text \<open>
  \<^verbatim>\<open>score_value\<close> is annotated \<^verbatim>\<open>float\<close>, but a mate score stores the \<^verbatim>\<open>int\<close> itself;
  a Python number is therefore an integer or a float.
\<close>

datatype py_number = IntNum int | FloatNum pyfloat

record evaluation =
  score_type :: string
  score_value :: py_number
  depth :: int

record prediction =
  bestmove :: string
  ponder :: "string option"
  evaluation :: evaluation

subsection \<open>\<^verbatim>\<open>_parse_evaluation\<close>\<close>

text \<open>
  The result is \<open>Inr None\<close> where the method returns \<^verbatim>\<open>None\<close>, \<open>Inr (Some e)\<close> where
  it returns an \<^verbatim>\<open>Evaluation\<close>, and \<open>Inl err\<close> where an exception leaves it.  Each
  \<^verbatim>\<open>try\<close> block catches ValueError and IndexError only, which are the \<open>None\<close>
  results of \<open>py_index\<close>, \<open>py_getitem\<close>, \<open>py_int\<close> and \<open>py_float\<close>.
\<close>

definition parse_depth :: "string list \<Rightarrow> int" where
  "parse_depth tokens =
     (if ''depth'' \<in> set tokens then
        (case py_index tokens ''depth'' of
           None \<Rightarrow> 0
         | Some depth_index \<Rightarrow>
             (case py_getitem tokens (depth_index + 1) of
                None \<Rightarrow> 0
              | Some depth_value \<Rightarrow>
                  (case py_int depth_value of None \<Rightarrow> 0 | Some d \<Rightarrow> d)))
      else 0)"

definition make_evaluation :: "string \<Rightarrow> string \<Rightarrow> int \<Rightarrow> py_error + evaluation option" where
  "make_evaluation stype svalue d =
     (if stype = ''cp'' then
        (case py_int svalue of
           None \<Rightarrow> Inr None
         | Some v \<Rightarrow>
             (case int_truediv_float v (Finite 100) of
                Inl err \<Rightarrow> Inl err
              | Inr f \<Rightarrow> Inr (Some \<lparr>score_type = stype, score_value = FloatNum f, depth = d\<rparr>)))
      else if stype = ''mate'' then
        (case py_int svalue of
           None \<Rightarrow> Inr None
         | Some v \<Rightarrow> Inr (Some \<lparr>score_type = stype, score_value = IntNum v, depth = d\<rparr>))
      else
        (case py_float svalue of
           None \<Rightarrow> Inr None
         | Some f \<Rightarrow> Inr (Some \<lparr>score_type = stype, score_value = FloatNum f, depth = d\<rparr>)))"

definition parse_evaluation :: "string \<Rightarrow> py_error + evaluation option" where
  "parse_evaluation raw_line =
     (let tokens = py_split raw_line in
      if ''score'' \<notin> set tokens then Inr None
      else
        (case py_index tokens ''score'' of
           None \<Rightarrow> Inr None
         | Some score_index \<Rightarrow>
             (case py_getitem tokens (score_index + 1) of
                None \<Rightarrow> Inr None
              | Some stype \<Rightarrow>
                  (case py_getitem tokens (score_index + 2) of
                     None \<Rightarrow> Inr None
                   | Some svalue \<Rightarrow> make_evaluation stype svalue (parse_depth tokens)))))"

subsection \<open>The streaming read loop of \<^verbatim>\<open>_query_engine\<close>\<close>

text \<open>
  The engine's standard output is a lazy sequence of lines that may be finite (the
  stream is closed) or go on for ever.
\<close>

codatatype 'a llist = LNil | LCons 'a "'a llist"

primrec llist_of :: "'a list \<Rightarrow> 'a llist" where
  "llist_of [] = LNil"
| "llist_of (x # xs) = LCons x (llist_of xs)"

text \<open>The local variables of the loop: \<^verbatim>\<open>bestmove\<close>, \<^verbatim>\<open>ponder\<close>, \<^verbatim>\<open>evaluation\<close>, \<^verbatim>\<open>best_depth\<close>.\<close>

record loop_state =
  cur_bestmove :: "string option"
  cur_ponder :: "string option"
  cur_evaluation :: "evaluation option"
  best_depth :: int

definition init_state :: loop_state where
  "init_state = \<lparr>cur_bestmove = None, cur_ponder = None, cur_evaluation = None, best_depth = - 1\<rparr>"

text \<open>One pass through the loop body ends in \<^verbatim>\<open>continue\<close>, in \<^verbatim>\<open>break\<close> or in an exception.\<close>

datatype loop_step = Continue loop_state | Break loop_state | Raise py_error

text \<open>The branch for a line that starts with \<^verbatim>\<open>info\<close>.\<close>

definition track_info :: "string \<Rightarrow> loop_state \<Rightarrow> loop_step" where
  "track_info line st =
     (case parse_evaluation line of
        Inl err \<Rightarrow> Raise err
      | Inr None \<Rightarrow> Continue st
      | Inr (Some parsed) \<Rightarrow>
          if best_depth st \<le> depth parsed
          then Continue (st\<lparr>cur_evaluation := Some parsed, best_depth := depth parsed\<rparr>)
          else Continue st)"

text \<open>The branch for a line that starts with \<^verbatim>\<open>bestmove\<close>.\<close>

definition read_bestmove :: "string \<Rightarrow> loop_state \<Rightarrow> loop_state" where
  "read_bestmove line st =
     (let tokens = py_split line;
          st1 = (if 2 \<le> length tokens then st\<lparr>cur_bestmove := Some (tokens ! 1)\<rparr> else st)
      in if ''ponder'' \<in> set tokens then
           (case py_index tokens ''ponder'' of
              None \<Rightarrow> st1
            | Some ponder_index \<Rightarrow>
                if ponder_index + 1 < length tokens
                then st1\<lparr>cur_ponder := Some (tokens ! (ponder_index + 1))\<rparr>
                else st1)
         else st1)"

definition loop_body :: "string \<Rightarrow> loop_state \<Rightarrow> loop_step" where
  "loop_body raw_line st =
     (let line = py_strip raw_line in
      if line = [] then Continue st
      else if py_startswith line ''info'' then track_info line st
      else if py_startswith line ''bestmove'' then Break (read_bestmove line st)
      else Continue st)"

text \<open>
  \<^verbatim>\<open>for raw_line in process.stdout\<close>.  The result is \<open>None\<close> when the loop never ends:
  the engine prints for ever and no line starts with \<^verbatim>\<open>bestmove\<close>.
\<close>

partial_function (option) read_loop :: "string llist \<Rightarrow> loop_state \<Rightarrow> (py_error + loop_state) option" where
  "read_loop out st =
     (case out of
        LNil \<Rightarrow> Some (Inr st)
      | LCons raw_line rest \<Rightarrow>
          (case loop_body raw_line st of
             Raise err \<Rightarrow> Some (Inl err)
           | Break st' \<Rightarrow> Some (Inr st')
           | Continue st' \<Rightarrow> read_loop rest st'))"

subsection \<open>The session \<^verbatim>\<open>_query_engine\<close>\<close>

text \<open>
  The command list of lines 88 to 101; \<^verbatim>\<open>moves\<close> is \<^verbatim>\<open>None\<close> or a sequence.  The only
  step that can raise is the formatting of the depth in the last command.
\<close>

definition build_commands ::
  "string \<Rightarrow> int \<Rightarrow> string list option \<Rightarrow> py_error + string list" where
  "build_commands fen depth_arg moves =
     (let moves_payload = (case moves of None \<Rightarrow> [] | Some ms \<Rightarrow> ms);
          position =
            (if moves_payload \<noteq> [] then
               (if fen = ''startpos''
                then ''position startpos moves '' @ py_join '' '' moves_payload
                else ''position fen '' @ fen @ '' moves '' @ py_join '' '' moves_payload)
             else if fen = ''startpos'' then ''position startpos''
             else ''position fen '' @ fen)
      in case py_str_int depth_arg of
           Inl err \<Rightarrow> Inl err
         | Inr depth_text \<Rightarrow>
             Inr ([''uci'', ''isready'', ''ucinewgame''] @ [position]
                  @ [''go depth '' @ depth_text]))"

text \<open>
  What the subprocess does, as far as the client observes it: whether \<^verbatim>\<open>Popen\<close> raises,
  whether both pipes are there, whether writing and flushing the script or the
  \<^verbatim>\<open>quit\<close> command raises (a broken pipe), the lines of the standard output, and how
  \<^verbatim>\<open>communicate(timeout=5)\<close> ends: with the exit code and the text of the standard
  error, or with TimeoutExpired.
\<close>

datatype wait_result = Exited int string | WaitTimedOut

record engine_env =
  popen_error :: "py_error option"
  stdin_open :: bool
  stdout_open :: bool
  script_write_error :: "py_error option"
  stdout_lines :: "string llist"
  quit_write_error :: "py_error option"
  communicate :: wait_result

text \<open>
  Lines 88 to 127: building the script, starting the process and writing the script.
  The result is the list of strings written to the engine's standard input when the
  read loop starts.
\<close>

definition start_session ::
  "engine_env \<Rightarrow> string \<Rightarrow> int \<Rightarrow> string list option \<Rightarrow> py_error + string list" where
  "start_session env fen depth_arg moves =
     (case build_commands fen depth_arg moves of
        Inl err \<Rightarrow> Inl err
      | Inr commands \<Rightarrow>
          (case popen_error env of
             Some FileNotFoundError \<Rightarrow>
               Inl (RuntimeError ''Docker is not installed or not found in PATH'')
           | Some err \<Rightarrow> Inl err
           | None \<Rightarrow>
               if \<not> stdin_open env \<or> \<not> stdout_open env
               then Inl (RuntimeError ''Failed to open Stockfish stdin/stdout streams'')
               else
                 (case script_write_error env of
                    Some err \<Rightarrow> Inl err
                  | None \<Rightarrow> Inr (map (\<lambda>command. command @ [CHR 0x0A]) commands))))"

text \<open>
  Lines 156 to 172: \<^verbatim>\<open>quit\<close>, the bounded wait, the check of the exit code, the check
  for a best move and the fallback evaluation.  \<^verbatim>\<open>process.returncode\<close> is an integer
  once \<^verbatim>\<open>communicate\<close> has returned.  The \<^verbatim>\<open>finally\<close> block kills a process that still
  runs; it changes neither the value returned nor the exception raised and is left
  out.
\<close>

definition finish_session :: "engine_env \<Rightarrow> int \<Rightarrow> loop_state \<Rightarrow> py_error + prediction" where
  "finish_session env depth_arg st =
     (case quit_write_error env of
        Some err \<Rightarrow> Inl err
      | None \<Rightarrow>
          (case communicate env of
             WaitTimedOut \<Rightarrow> Inl TimeoutExpired
           | Exited returncode stderr_output \<Rightarrow>
               if returncode \<noteq> 0
               then Inl (RuntimeError (''Stockfish process failed: '' @ py_strip stderr_output))
               else
                 (case cur_bestmove st of
                    None \<Rightarrow> Inl (RuntimeError ''Stockfish did not report a best move'')
                  | Some bm \<Rightarrow>
                      Inr \<lparr>bestmove = bm, ponder = cur_ponder st,
                           evaluation =
                             (case cur_evaluation st of
                                None \<Rightarrow> \<lparr>score_type = ''cp'', score_value = FloatNum (Finite 0),
                                          depth = depth_arg\<rparr>
                              | Some e \<Rightarrow> e)\<rparr>)))"

text \<open>\<open>None\<close>: the call never returns, because the read loop never ends.\<close>

definition query_engine ::
  "engine_env \<Rightarrow> string \<Rightarrow> int \<Rightarrow> string list option \<Rightarrow> (py_error + prediction) option" where
  "query_engine env fen depth_arg moves =
     (case start_session env fen depth_arg moves of
        Inl err \<Rightarrow> Some (Inl err)
      | Inr written \<Rightarrow>
          (case read_loop (stdout_lines env) init_state of
             None \<Rightarrow> None
           | Some (Inl err) \<Rightarrow> Some (Inl err)
           | Some (Inr st) \<Rightarrow> Some (finish_session env depth_arg st)))"

definition predict_next_move ::
  "engine_env \<Rightarrow> string \<Rightarrow> int \<Rightarrow> string list option \<Rightarrow> (py_error + prediction) option" where
  "predict_next_move env fen depth_arg moves = query_engine env fen depth_arg moves"

definition analyze_position ::
  "engine_env \<Rightarrow> string \<Rightarrow> int \<Rightarrow> string list option \<Rightarrow> (py_error + evaluation) option" where
  "analyze_position env fen depth_arg moves =
     map_option (map_sum id evaluation) (query_engine env fen depth_arg moves)"

subsection \<open>The readiness probe \<^verbatim>\<open>is_service_ready\<close>\<close>

text \<open>
  How \<^verbatim>\<open>subprocess.run(["docker", "inspect", ...], check=True)\<close> ends: it returns with
  the captured standard output, or it raises: FileNotFoundError when there is no
  \<^verbatim>\<open>docker\<close> executable, CalledProcessError when the inspection exits with a code other
  than zero, or something else.
\<close>

datatype run_result = Completed string | RunRaises py_error

definition is_service_ready :: "run_result \<Rightarrow> py_error + bool" where
  "is_service_ready r =
     (case r of
        RunRaises CalledProcessError \<Rightarrow> Inr False
      | RunRaises FileNotFoundError \<Rightarrow> Inr False
      | RunRaises err \<Rightarrow> Inl err
      | Completed out \<Rightarrow> Inr (py_lower (py_strip out) = ''true''))"

subsection \<open>Notions used to state the properties\<close>

text \<open>A finite prefix of lines in front of a stream.\<close>

primrec lprepend :: "'a list \<Rightarrow> 'a llist \<Rightarrow> 'a llist" where
  "lprepend [] l = l"
| "lprepend (x # xs) l = LCons x (lprepend xs l)"

text \<open>The two kinds of lines the loop interprets, by the prefix of the stripped line.\<close>

definition is_info_line :: "string \<Rightarrow> bool" where
  "is_info_line raw_line = py_startswith (py_strip raw_line) ''info''"

definition is_bestmove_line :: "string \<Rightarrow> bool" where
  "is_bestmove_line raw_line = py_startswith (py_strip raw_line) ''bestmove''"

text \<open>The lines the loop reads before the terminal line.\<close>

definition lines_before_bestmove :: "string list \<Rightarrow> string list" where
  "lines_before_bestmove ls = takeWhile (\<lambda>l. \<not> is_bestmove_line l) ls"

text \<open>The evaluations of the \<^verbatim>\<open>info\<close> lines that parse, in the order of the lines.\<close>

definition parsed_of_line :: "string \<Rightarrow> evaluation option" where
  "parsed_of_line raw_line =
     (if is_info_line raw_line then
        (case parse_evaluation (py_strip raw_line) of
           Inr (Some e) \<Rightarrow> Some e
         | _ \<Rightarrow> None)
      else None)"

definition parsed_evaluations :: "string list \<Rightarrow> evaluation list" where
  "parsed_evaluations ls = List.map_filter parsed_of_line ls"

text \<open>
  The specification's choice among evaluations: one of maximum depth and, among
  those of maximum depth, the one seen last.
\<close>

definition deepest_latest :: "evaluation list \<Rightarrow> evaluation option" where
  "deepest_latest es =
     (if es = [] then None
      else Some (last (filter (\<lambda>e. depth e = Max (set (map depth es))) es)))"

text \<open>
  The running sentinel of the readiness probe, compared without regard to case: the
  four letters of \<^verbatim>\<open>true\<close>, each small or capital.
\<close>

definition matches_true :: "string \<Rightarrow> bool" where
  "matches_true s =
     (case s of
        [a, b, c, d] \<Rightarrow>
          a \<in> set ''tT'' \<and> b \<in> set ''rR'' \<and> c \<in> set ''uU'' \<and> d \<in> set ''eE''
      | _ \<Rightarrow> False)"

text \<open>
  The two variables \<^verbatim>\<open>evaluation\<close> and \<^verbatim>\<open>best_depth\<close> after one more parsed evaluation.
\<close>

definition track :: "evaluation option \<times> int \<Rightarrow> evaluation \<Rightarrow> evaluation option \<times> int" where
  "track s e = (if snd s \<le> depth e then (Some e, depth e) else s)"

text \<open>
  The lines the engine reads from the text written to its standard input: the text
  is cut at every line feed, and a last piece without a line feed is a line when it
  is not empty.  The first argument of \<open>lines_from\<close> is the line being read.
\<close>

fun lines_from :: "string \<Rightarrow> string \<Rightarrow> string list" where
  "lines_from cur [] = (if cur = [] then [] else [cur])"
| "lines_from cur (c # cs) =
     (if c = CHR 0x0A then cur # lines_from [] cs else lines_from (cur @ [c]) cs)"

definition engine_lines :: "string list \<Rightarrow> string list" where
  "engine_lines written = lines_from [] (concat written)"

text \<open>
  The invariant of the data model: the depth is not negative and the score value is
  finite (an integer, or a float that is neither an infinity nor NaN).
\<close>

definition finite_number :: "py_number \<Rightarrow> bool" where
  "finite_number x =
     (case x of
        IntNum n \<Rightarrow> True
      | FloatNum f \<Rightarrow> (case f of Finite q \<Rightarrow> True | _ \<Rightarrow> False))"

definition evaluation_invariant :: "evaluation \<Rightarrow> bool" where
  "evaluation_invariant e = (0 \<le> depth e \<and> finite_number (score_value e))"

section \<open>Properties\<close>

lemma read_loop_LNil: "read_loop LNil st = Some (Inr st)"
  by (subst read_loop.simps) simp

lemma read_loop_LCons:
  "read_loop (LCons raw rest) st =
     (case loop_body raw st of
        Raise err \<Rightarrow> Some (Inl err)
      | Break st' \<Rightarrow> Some (Inr st')
      | Continue st' \<Rightarrow> read_loop rest st')"
  by (subst read_loop.simps) simp

lemma llist_of_lprepend: "llist_of xs = lprepend xs LNil"
  by (induction xs) simp_all

lemma py_startswith_iff: "py_startswith s p \<longleftrightarrow> (\<exists>r. s = p @ r)"
proof
  assume "py_startswith s p"
  then have "s = p @ drop (length p) s"
    by (metis append_take_drop_id py_startswith_def)
  then show "\<exists>r. s = p @ r" ..
next
  assume "\<exists>r. s = p @ r"
  then show "py_startswith s p" by (auto simp: py_startswith_def)
qed

lemma startswith_bestmove_not_info:
  assumes "py_startswith s ''bestmove''"
  shows "s \<noteq> [] \<and> \<not> py_startswith s ''info''"
proof -
  from assms obtain r where "s = ''bestmove'' @ r" by (auto simp: py_startswith_iff)
  then show ?thesis by (simp add: py_startswith_def)
qed

lemma track_info_not_break: "track_info line st \<noteq> Break st'"
  by (simp add: track_info_def split: sum.splits option.splits)

lemma loop_body_bestmove:
  "is_bestmove_line raw \<Longrightarrow> loop_body raw st = Break (read_bestmove (py_strip raw) st)"
  using startswith_bestmove_not_info [of "py_strip raw"]
  by (simp add: loop_body_def is_bestmove_line_def Let_def)

lemma loop_body_not_bestmove:
  "\<not> is_bestmove_line raw \<Longrightarrow> loop_body raw st \<noteq> Break st'"
  by (simp add: loop_body_def is_bestmove_line_def Let_def track_info_not_break)

subsection \<open>Finite streams\<close>

lemma read_loop_lprepend_no_bestmove:
  assumes "\<forall>l \<in> set pre. \<not> is_bestmove_line l"
  shows "read_loop (lprepend pre rest) st =
           (case read_loop (llist_of pre) st of
              Some (Inr st') \<Rightarrow> read_loop rest st'
            | r \<Rightarrow> r)"
  using assms
proof (induction pre arbitrary: st)
  case Nil
  show ?case by (simp add: read_loop_LNil)
next
  case (Cons l pre)
  then have nb: "\<not> is_bestmove_line l" and rest: "\<forall>l \<in> set pre. \<not> is_bestmove_line l"
    by simp_all
  show ?case
  proof (cases "loop_body l st")
    case (Continue st1)
    then show ?thesis using Cons.IH [OF rest, of st1] by (simp add: read_loop_LCons)
  next
    case (Break st1)
    then show ?thesis using loop_body_not_bestmove [OF nb] by simp
  next
    case (Raise err)
    then show ?thesis by (simp add: read_loop_LCons)
  qed
qed

lemma read_loop_finite_terminates: "\<exists>r. read_loop (llist_of ls) st = Some r"
proof (induction ls arbitrary: st)
  case Nil
  show ?case by (simp add: read_loop_LNil)
next
  case (Cons l ls)
  show ?case using Cons.IH by (cases "loop_body l st") (simp_all add: read_loop_LCons)
qed

text \<open>The move and the ponder move change only on a \<^verbatim>\<open>bestmove\<close> line.\<close>

lemma loop_body_continue_keeps_moves:
  "loop_body l st = Continue st' \<Longrightarrow>
     cur_bestmove st' = cur_bestmove st \<and> cur_ponder st' = cur_ponder st"
  by (auto simp: loop_body_def track_info_def Let_def split: if_splits sum.splits option.splits)

lemma read_loop_no_bestmove_keeps_moves:
  assumes "\<forall>l \<in> set ls. \<not> is_bestmove_line l"
    and "read_loop (llist_of ls) st = Some (Inr st')"
  shows "cur_bestmove st' = cur_bestmove st \<and> cur_ponder st' = cur_ponder st"
  using assms
proof (induction ls arbitrary: st)
  case Nil
  then show ?case by (simp add: read_loop_LNil)
next
  case (Cons l ls)
  then have nb: "\<not> is_bestmove_line l" and rest: "\<forall>l \<in> set ls. \<not> is_bestmove_line l"
    by simp_all
  show ?case
  proof (cases "loop_body l st")
    case (Continue st1)
    with Cons.prems(2) have "read_loop (llist_of ls) st1 = Some (Inr st')"
      by (simp add: read_loop_LCons)
    from Cons.IH [OF rest this] loop_body_continue_keeps_moves [OF Continue]
    show ?thesis by simp
  next
    case (Break st1)
    then show ?thesis using loop_body_not_bestmove [OF nb] by simp
  next
    case (Raise err)
    with Cons.prems(2) show ?thesis by (simp add: read_loop_LCons)
  qed
qed

subsection \<open>Splitting at whitespace\<close>

lemma split_from_cur:
  "cur \<noteq> [] \<Longrightarrow>
     split_from cur s =
       (cur @ takeWhile (\<lambda>c. \<not> is_space c) s) # split_from [] (dropWhile (\<lambda>c. \<not> is_space c) s)"
proof (induction s arbitrary: cur)
  case Nil
  then show ?case by simp
next
  case (Cons c s)
  show ?case
  proof (cases "is_space c")
    case True
    with Cons.prems show ?thesis by simp
  next
    case False
    with Cons.IH [of "cur @ [c]"] show ?thesis by simp
  qed
qed

lemma py_split_Nil: "py_split [] = []"
  by (simp add: py_split_def)

lemma py_split_space: "is_space c \<Longrightarrow> py_split (c # s) = py_split s"
  by (simp add: py_split_def)

lemma py_split_token:
  "\<not> is_space c \<Longrightarrow>
     py_split (c # s) =
       (c # takeWhile (\<lambda>c. \<not> is_space c) s) # py_split (dropWhile (\<lambda>c. \<not> is_space c) s)"
  using split_from_cur [of "[c]" s] by (simp add: py_split_def)

lemma py_split_word_append:
  assumes "t \<noteq> []" and "\<forall>c \<in> set t. \<not> is_space c" and "is_space d"
  shows "py_split (t @ d # s) = t # py_split s"
proof -
  from assms(1) obtain c r where t: "t = c # r" by (cases t) auto
  with assms(2) have c: "\<not> is_space c" and r: "\<forall>c \<in> set r. \<not> is_space c" by simp_all
  from r assms(3) have tw: "takeWhile (\<lambda>c. \<not> is_space c) (r @ d # s) = r"
    by (simp add: takeWhile_append2)
  from r assms(3) have dw: "dropWhile (\<lambda>c. \<not> is_space c) (r @ d # s) = d # s"
    by (simp add: dropWhile_append2)
  show ?thesis
    using py_split_token [OF c, of "r @ d # s"] assms(3) by (simp add: t tw dw py_split_space)
qed

lemma py_split_word:
  assumes "t \<noteq> []" and "\<forall>c \<in> set t. \<not> is_space c"
  shows "py_split t = [t]"
proof -
  from assms(1) obtain c r where t: "t = c # r" by (cases t) auto
  with assms(2) have c: "\<not> is_space c" and r: "\<forall>c \<in> set r. \<not> is_space c" by simp_all
  from r have tw: "takeWhile (\<lambda>c. \<not> is_space c) r = r" by simp
  from r have dw: "dropWhile (\<lambda>c. \<not> is_space c) r = []" by simp
  show ?thesis using py_split_token [OF c, of r] by (simp add: t tw dw py_split_Nil)
qed

text \<open>A token is a word: it is not empty and holds no whitespace.\<close>

lemma py_split_join:
  assumes "\<forall>t \<in> set ts. t \<noteq> [] \<and> (\<forall>c \<in> set t. \<not> is_space c)"
  shows "py_split (py_join '' '' ts) = ts"
  using assms
proof (induction ts rule: induct_list012)
  case 1
  show ?case by (simp add: py_split_Nil)
next
  case (2 x)
  then show ?case by (simp add: py_split_word)
next
  case (3 x y ys)
  then have x: "x \<noteq> []" "\<forall>c \<in> set x. \<not> is_space c" by simp_all
  have sp: "is_space (CHR '' '')" by (simp add: is_space_def)
  from 3 have "py_split (py_join '' '' (y # ys)) = y # ys" by simp
  then show ?case using py_split_word_append [OF x sp, of "py_join '' '' (y # ys)"] by simp
qed

lemma py_split_first_char:
  assumes "\<not> is_space c"
  shows "\<exists>t ts. py_split (c # s) = (c # t) # ts"
  using py_split_token [OF assms] by blast

text \<open>A \<^verbatim>\<open>bestmove\<close> line with a single token records nothing.\<close>

lemma read_bestmove_single_token:
  assumes "py_startswith line ''bestmove''" and "length (py_split line) < 2"
  shows "read_bestmove line st = st"
proof -
  from assms(1) obtain r where line: "line = CHR ''b'' # (''estmove'' @ r)"
    by (auto simp: py_startswith_iff)
  have "\<not> is_space (CHR ''b'')" by (simp add: is_space_def)
  from py_split_first_char [OF this, of "''estmove'' @ r"] line
  obtain t ts where sp: "py_split line = (CHR ''b'' # t) # ts" by auto
  with assms(2) have "ts = []" by simp
  with sp have "''ponder'' \<notin> set (py_split line)" by simp
  with assms(2) show ?thesis by (simp add: read_bestmove_def Let_def)
qed

subsection \<open>The end of a session\<close>

lemma query_engine_after_loop:
  assumes "start_session env fen depth_arg moves = Inr written"
    and "read_loop (stdout_lines env) init_state = Some (Inr st)"
  shows "query_engine env fen depth_arg moves = Some (finish_session env depth_arg st)"
  using assms by (simp add: query_engine_def)

lemma finish_session_no_bestmove:
  "cur_bestmove st = None \<Longrightarrow> \<exists>err. finish_session env depth_arg st = Inl err"
  by (simp add: finish_session_def split: option.splits wait_result.splits)

lemma finish_session_no_bestmove_clean:
  assumes "cur_bestmove st = None" and "quit_write_error env = None"
    and "communicate env = Exited 0 stderr_output"
  shows "finish_session env depth_arg st = Inl (RuntimeError ''Stockfish did not report a best move'')"
  using assms by (simp add: finish_session_def)

lemma init_state_simps:
  "cur_bestmove init_state = None" "cur_ponder init_state = None"
  "cur_evaluation init_state = None" "best_depth init_state = - 1"
  by (simp_all add: init_state_def)

lemma query_engine_no_bestmove_line:
  assumes "start_session env fen depth_arg moves = Inr written"
    and "stdout_lines env = llist_of ls"
    and "\<forall>l \<in> set ls. \<not> is_bestmove_line l"
  shows "\<exists>err. query_engine env fen depth_arg moves = Some (Inl err)"
proof -
  from read_loop_finite_terminates obtain r where r: "read_loop (llist_of ls) init_state = Some r"
    by blast
  show ?thesis
  proof (cases r)
    case (Inl err)
    with r assms(1,2) show ?thesis by (simp add: query_engine_def)
  next
    case (Inr st)
    with r have loop: "read_loop (llist_of ls) init_state = Some (Inr st)" by simp
    from read_loop_no_bestmove_keeps_moves [OF assms(3) loop]
    have "cur_bestmove st = None" by (simp add: init_state_simps)
    from finish_session_no_bestmove [OF this, of env depth_arg]
    show ?thesis using loop assms(1,2) by (auto simp: query_engine_def)
  qed
qed

text \<open>Evaluation of the definitions on concrete input.\<close>

lemmas session_eval =
  query_engine_def start_session_def finish_session_def build_commands_def
  py_str_int_def str_int_def int_max_str_digits_def
  read_loop_LCons read_loop_LNil loop_body_def track_info_def read_bestmove_def
  init_state_def py_strip_def py_split_def py_startswith_def is_space_def

lemmas start_eval =
  start_session_def build_commands_def py_str_int_def int_max_str_digits_def

lemmas parse_eval =
  parse_evaluation_def parse_depth_def make_evaluation_def py_getitem_def py_int_def
  int_digits_ok_def int_max_str_digits_def is_digit_def digits_value_def digit_val_def

text \<open>
  C6.  When a session reaches the wait after \<^verbatim>\<open>quit\<close> and the process has exited with
  a code other than zero, the call fails with the RuntimeError that carries the
  stripped text of the standard error, whatever the read loop has collected: the
  exit code is checked before the best move is looked at.
\<close>

theorem nonzero_exit_is_engine_failure:
  assumes "start_session env fen depth_arg moves = Inr written"
    and "read_loop (stdout_lines env) init_state = Some (Inr st)"
    and "quit_write_error env = None"
    and "communicate env = Exited returncode stderr_output"
    and "returncode \<noteq> 0"
  shows "query_engine env fen depth_arg moves =
           Some (Inl (RuntimeError (''Stockfish process failed: '' @ py_strip stderr_output)))"
  using assms by (simp add: query_engine_def finish_session_def)

theorem nonzero_exit_is_engine_failure_witness:
  "read_loop (llist_of [''info depth 4 score mate 2\<newline>'', ''bestmove e2e4 ponder e7e5\<newline>''])
     init_state
   = Some (Inr \<lparr>cur_bestmove = Some ''e2e4'', cur_ponder = Some ''e7e5'',
                cur_evaluation =
                  Some \<lparr>score_type = ''mate'', score_value = IntNum 2, depth = 4\<rparr>,
                best_depth = 4\<rparr>)
   \<and> query_engine
       \<lparr>popen_error = None, stdin_open = True, stdout_open = True, script_write_error = None,
        stdout_lines =
          llist_of [''info depth 4 score mate 2\<newline>'', ''bestmove e2e4 ponder e7e5\<newline>''],
        quit_write_error = None, communicate = Exited 139 ''Segmentation fault\<newline>''\<rparr>
       ''startpos'' 5 None
   = Some (Inl (RuntimeError ''Stockfish process failed: Segmentation fault''))"
proof -
  let ?ls = "[''info depth 4 score mate 2\<newline>'', ''bestmove e2e4 ponder e7e5\<newline>'']"
  let ?env = "\<lparr>popen_error = None, stdin_open = True, stdout_open = True,
               script_write_error = None, stdout_lines = llist_of ?ls,
               quit_write_error = None, communicate = Exited 139 ''Segmentation fault\<newline>''\<rparr>"
  let ?st = "\<lparr>cur_bestmove = Some ''e2e4'', cur_ponder = Some ''e7e5'',
               cur_evaluation =
                 Some \<lparr>score_type = ''mate'', score_value = IntNum 2, depth = 4\<rparr>,
               best_depth = 4\<rparr>"
  obtain w where w: "start_session ?env ''startpos'' 5 None = Inr w"
    by (simp add: start_eval)
  have loop: "read_loop (llist_of ?ls) init_state = Some (Inr ?st)"
    by (simp add: session_eval parse_eval)
  have "query_engine ?env ''startpos'' 5 None =
          Some (Inl (RuntimeError (''Stockfish process failed: '' @ py_strip ''Segmentation fault\<newline>'')))"
    using loop
    by (intro nonzero_exit_is_engine_failure [OF w, where st = ?st and returncode = 139])
       simp_all
  then show ?thesis using loop by (simp add: py_strip_def is_space_def)
qed

text \<open>
  C2 (as amended).  When the read loop ends with a best move and without a tracked
  evaluation, the \<^verbatim>\<open>quit\<close> command can be written and the process exits with code 0
  within the timeout, the call returns the prediction with that move, the ponder
  move read, and the fallback evaluation: centipawns, 0.0, the requested depth.
\<close>

theorem fallback_evaluation:
  assumes "start_session env fen depth_arg moves = Inr written"
    and "read_loop (stdout_lines env) init_state = Some (Inr st)"
    and "cur_bestmove st = Some bm"
    and "cur_evaluation st = None"
    and "quit_write_error env = None"
    and "communicate env = Exited 0 stderr_output"
  shows "query_engine env fen depth_arg moves =
           Some (Inr \<lparr>bestmove = bm, ponder = cur_ponder st,
                      evaluation = \<lparr>score_type = ''cp'', score_value = FloatNum (Finite 0),
                                    depth = depth_arg\<rparr>\<rparr>)"
  using assms by (simp add: query_engine_def finish_session_def)

theorem fallback_evaluation_witness:
  "query_engine
     \<lparr>popen_error = None, stdin_open = True, stdout_open = True, script_write_error = None,
      stdout_lines = llist_of [''bestmove d2d4\<newline>''],
      quit_write_error = None, communicate = Exited 0 ''''\<rparr>
     ''startpos'' 8 None
   = Some (Inr \<lparr>bestmove = ''d2d4'', ponder = None,
              evaluation = \<lparr>score_type = ''cp'', score_value = FloatNum (Finite 0),
                            depth = 8\<rparr>\<rparr>)"
proof -
  let ?env = "\<lparr>popen_error = None, stdin_open = True, stdout_open = True,
               script_write_error = None, stdout_lines = llist_of [''bestmove d2d4\<newline>''],
               quit_write_error = None, communicate = Exited 0 ''''\<rparr>"
  let ?st = "\<lparr>cur_bestmove = Some ''d2d4'', cur_ponder = None, cur_evaluation = None,
               best_depth = - 1\<rparr>"
  obtain w where w: "start_session ?env ''startpos'' 8 None = Inr w"
    by (simp add: start_eval)
  have loop: "read_loop (llist_of [''bestmove d2d4\<newline>'']) init_state = Some (Inr ?st)"
    by (simp add: session_eval)
  show ?thesis
    using loop fallback_evaluation [OF w, where st = ?st and bm = "''d2d4''"]
    by simp
qed

text \<open>
  The claim as stated fails: the same output with exit code 1 ends in the
  RuntimeError of the exit-code check, although a best move was extracted and no
  evaluation was tracked.
\<close>

theorem fallback_needs_clean_exit:
  "read_loop (llist_of [''bestmove d2d4\<newline>'']) init_state
   = Some (Inr \<lparr>cur_bestmove = Some ''d2d4'', cur_ponder = None, cur_evaluation = None,
                best_depth = - 1\<rparr>)
   \<and> query_engine
     \<lparr>popen_error = None, stdin_open = True, stdout_open = True, script_write_error = None,
      stdout_lines = llist_of [''bestmove d2d4\<newline>''],
      quit_write_error = None, communicate = Exited 1 ''''\<rparr>
     ''startpos'' 8 None
   = Some (Inl (RuntimeError ''Stockfish process failed: ''))"
  by (simp add: session_eval)

text \<open>
  C7 (as amended).  When the output ends and no line read starts with \<^verbatim>\<open>bestmove\<close>,
  the call returns no prediction: it ends in an exception.  The exception is the
  RuntimeError ``Stockfish did not report a best move'' when the read loop raised
  nothing, the \<^verbatim>\<open>quit\<close> command could be written and the process exited with code 0
  within the timeout.
\<close>

theorem exhausted_output_fails:
  assumes "start_session env fen depth_arg moves = Inr written"
    and "stdout_lines env = llist_of ls"
    and "\<forall>l \<in> set ls. \<not> is_bestmove_line l"
  shows "(\<exists>err. query_engine env fen depth_arg moves = Some (Inl err))
       \<and> (\<forall>st stderr_output.
             read_loop (llist_of ls) init_state = Some (Inr st)
             \<and> quit_write_error env = None
             \<and> communicate env = Exited 0 stderr_output
             \<longrightarrow> query_engine env fen depth_arg moves
                   = Some (Inl (RuntimeError ''Stockfish did not report a best move'')))"
proof (intro conjI allI impI)
  show "\<exists>err. query_engine env fen depth_arg moves = Some (Inl err)"
    by (rule query_engine_no_bestmove_line [OF assms])
next
  fix st stderr_output
  assume h: "read_loop (llist_of ls) init_state = Some (Inr st)
             \<and> quit_write_error env = None \<and> communicate env = Exited 0 stderr_output"
  then have loop: "read_loop (llist_of ls) init_state = Some (Inr st)" by simp
  from read_loop_no_bestmove_keeps_moves [OF assms(3) loop]
  have nb: "cur_bestmove st = None" by (simp add: init_state_simps)
  from h have "finish_session env depth_arg st
                 = Inl (RuntimeError ''Stockfish did not report a best move'')"
    by (intro finish_session_no_bestmove_clean [OF nb]) simp_all
  then show "query_engine env fen depth_arg moves
               = Some (Inl (RuntimeError ''Stockfish did not report a best move''))"
    using loop assms(1,2) by (simp add: query_engine_def)
qed

theorem exhausted_output_fails_witness:
  "query_engine
     \<lparr>popen_error = None, stdin_open = True, stdout_open = True, script_write_error = None,
      stdout_lines = llist_of [''Stockfish 16\<newline>'', ''info depth 1 score mate 1\<newline>''],
      quit_write_error = None, communicate = Exited 0 ''''\<rparr>
     ''startpos'' 8 None
   = Some (Inl (RuntimeError ''Stockfish did not report a best move''))"
proof -
  let ?ls = "[''Stockfish 16\<newline>'', ''info depth 1 score mate 1\<newline>'']"
  let ?env = "\<lparr>popen_error = None, stdin_open = True, stdout_open = True,
               script_write_error = None, stdout_lines = llist_of ?ls,
               quit_write_error = None, communicate = Exited 0 ''''\<rparr>"
  let ?st = "\<lparr>cur_bestmove = None, cur_ponder = None,
               cur_evaluation =
                 Some \<lparr>score_type = ''mate'', score_value = IntNum 1, depth = 1\<rparr>,
               best_depth = 1\<rparr>"
  obtain w where w: "start_session ?env ''startpos'' 8 None = Inr w"
    by (simp add: start_eval)
  have nb: "\<forall>l \<in> set ?ls. \<not> is_bestmove_line l"
    by (simp add: is_bestmove_line_def py_strip_def py_startswith_def is_space_def)
  have loop: "read_loop (llist_of ?ls) init_state = Some (Inr ?st)"
    by (simp add: session_eval parse_eval)
  have env: "stdout_lines ?env = llist_of ?ls" by simp
  from exhausted_output_fails [OF w env nb] loop show ?thesis
    by simp
qed

text \<open>
  The claim as stated fails: with the output closed before any \<^verbatim>\<open>bestmove\<close> line and
  exit code 3, the call fails with the RuntimeError of the exit-code check.
\<close>

theorem exhausted_output_nonzero_exit:
  "query_engine
     \<lparr>popen_error = None, stdin_open = True, stdout_open = True, script_write_error = None,
      stdout_lines = llist_of [''Stockfish 16\<newline>''],
      quit_write_error = None, communicate = Exited 3 ''no such container''\<rparr>
     ''startpos'' 8 None
   = Some (Inl (RuntimeError ''Stockfish process failed: no such container''))
   \<and> RuntimeError ''Stockfish process failed: no such container''
     \<noteq> RuntimeError ''Stockfish did not report a best move''"
  by (simp add: session_eval)

lemma start_session_stdout_lines:
  "start_session (env\<lparr>stdout_lines := out\<rparr>) fen depth_arg moves
     = start_session env fen depth_arg moves"
  by (simp add: start_session_def cong: option.case_cong if_cong sum.case_cong)

lemma finish_session_stdout_lines:
  "finish_session (env\<lparr>stdout_lines := out\<rparr>) depth_arg st = finish_session env depth_arg st"
  by (simp add: finish_session_def cong: option.case_cong)

lemma read_loop_bare_bestmove:
  assumes "is_bestmove_line bm" and "length (py_split (py_strip bm)) < 2"
  shows "read_loop (LCons bm rest) st = Some (Inr st)"
proof -
  from assms(1) have "py_startswith (py_strip bm) ''bestmove''"
    by (simp add: is_bestmove_line_def)
  from read_bestmove_single_token [OF this assms(2)] loop_body_bestmove [OF assms(1), of st]
  show ?thesis by (simp add: read_loop_LCons)
qed

lemma read_loop_bare_bestmove_prefix:
  assumes "\<forall>l \<in> set pre. \<not> is_bestmove_line l"
    and "is_bestmove_line bm" and "length (py_split (py_strip bm)) < 2"
  shows "read_loop (lprepend pre (LCons bm rest)) st = read_loop (llist_of pre) st"
proof -
  from read_loop_finite_terminates obtain r where r: "read_loop (llist_of pre) st = Some r"
    by blast
  show ?thesis
    using read_loop_lprepend_no_bestmove [OF assms(1), of "LCons bm rest" st] r
      read_loop_bare_bestmove [OF assms(2,3)]
    by (cases r) simp_all
qed

text \<open>
  C10 (as amended).  Let the first line that starts with \<^verbatim>\<open>bestmove\<close> have no second token.  The
  read loop ends on that line, in the state it would have if the output had ended
  just before it, and no move is recorded.  The call has the outcome of the session
  whose output ends before that line: an exception and never a prediction, and the
  RuntimeError ``Stockfish did not report a best move'' when the read loop raised
  nothing, \<^verbatim>\<open>quit\<close> could be written and the process exited with code 0.
\<close>

theorem bare_bestmove_line:
  assumes "\<forall>l \<in> set pre. \<not> is_bestmove_line l"
    and "is_bestmove_line bm"
    and "length (py_split (py_strip bm)) < 2"
    and "start_session env fen depth_arg moves = Inr written"
  shows "read_loop (lprepend pre (LCons bm rest)) init_state = read_loop (llist_of pre) init_state
       \<and> (\<forall>st. read_loop (lprepend pre (LCons bm rest)) init_state = Some (Inr st)
              \<longrightarrow> cur_bestmove st = None)
       \<and> query_engine (env\<lparr>stdout_lines := lprepend pre (LCons bm rest)\<rparr>) fen depth_arg moves
         = query_engine (env\<lparr>stdout_lines := llist_of pre\<rparr>) fen depth_arg moves
       \<and> (\<exists>err. query_engine (env\<lparr>stdout_lines := lprepend pre (LCons bm rest)\<rparr>)
                  fen depth_arg moves = Some (Inl err))
       \<and> (\<forall>st stderr_output.
             read_loop (lprepend pre (LCons bm rest)) init_state = Some (Inr st)
             \<and> quit_write_error env = None
             \<and> communicate env = Exited 0 stderr_output
             \<longrightarrow> query_engine (env\<lparr>stdout_lines := lprepend pre (LCons bm rest)\<rparr>)
                     fen depth_arg moves
                   = Some (Inl (RuntimeError ''Stockfish did not report a best move'')))"
proof -
  let ?out = "lprepend pre (LCons bm rest)"
  let ?env1 = "env\<lparr>stdout_lines := ?out\<rparr>"
  let ?env0 = "env\<lparr>stdout_lines := llist_of pre\<rparr>"
  have same: "read_loop ?out init_state = read_loop (llist_of pre) init_state"
    by (rule read_loop_bare_bestmove_prefix [OF assms(1-3)])
  have start1: "start_session ?env1 fen depth_arg moves = Inr written"
    and start0: "start_session ?env0 fen depth_arg moves = Inr written"
    using assms(4) by (simp_all add: start_session_stdout_lines)
  have none: "cur_bestmove st = None" if "read_loop ?out init_state = Some (Inr st)" for st
    using read_loop_no_bestmove_keeps_moves [OF assms(1), of init_state st] that same
    by (simp add: init_state_simps)
  have eq: "query_engine ?env1 fen depth_arg moves = query_engine ?env0 fen depth_arg moves"
    using same start1 start0
    by (simp add: query_engine_def finish_session_stdout_lines
             cong: option.case_cong sum.case_cong)
  have err: "\<exists>err. query_engine ?env1 fen depth_arg moves = Some (Inl err)"
    using query_engine_no_bestmove_line [OF start0 _ assms(1)] eq by simp
  have clean: "query_engine ?env1 fen depth_arg moves
                 = Some (Inl (RuntimeError ''Stockfish did not report a best move''))"
    if "read_loop ?out init_state = Some (Inr st)" and "quit_write_error env = None"
      and "communicate env = Exited 0 stderr_output" for st stderr_output
  proof -
    have "finish_session ?env1 depth_arg st
            = Inl (RuntimeError ''Stockfish did not report a best move'')"
      using that(2,3) finish_session_no_bestmove_clean [OF none [OF that(1)], of env]
      by (simp add: finish_session_stdout_lines)
    then show ?thesis using that(1) start1 by (simp add: query_engine_def)
  qed
  from same none eq err clean show ?thesis by blast
qed

theorem bare_bestmove_line_witness:
  "read_loop (lprepend [''info depth 2 score mate 1\<newline>''] (LCons ''bestmove\<newline>'' LNil)) init_state
   = Some (Inr \<lparr>cur_bestmove = None, cur_ponder = None,
                cur_evaluation =
                  Some \<lparr>score_type = ''mate'', score_value = IntNum 1, depth = 2\<rparr>,
                best_depth = 2\<rparr>)
   \<and> query_engine
       \<lparr>popen_error = None, stdin_open = True, stdout_open = True, script_write_error = None,
        stdout_lines = lprepend [''info depth 2 score mate 1\<newline>''] (LCons ''bestmove\<newline>'' LNil),
        quit_write_error = None, communicate = Exited 0 ''''\<rparr>
       ''startpos'' 8 None
     = Some (Inl (RuntimeError ''Stockfish did not report a best move''))
   \<and> query_engine
       \<lparr>popen_error = None, stdin_open = True, stdout_open = True, script_write_error = None,
        stdout_lines = llist_of [''info depth 2 score mate 1\<newline>''],
        quit_write_error = None, communicate = Exited 0 ''''\<rparr>
       ''startpos'' 8 None
     = Some (Inl (RuntimeError ''Stockfish did not report a best move''))"
proof -
  let ?pre = "[''info depth 2 score mate 1\<newline>'']"
  let ?env = "\<lparr>popen_error = None, stdin_open = True, stdout_open = True,
               script_write_error = None, stdout_lines = LNil,
               quit_write_error = None, communicate = Exited 0 ''''\<rparr>"
  let ?st = "\<lparr>cur_bestmove = None, cur_ponder = None,
               cur_evaluation =
                 Some \<lparr>score_type = ''mate'', score_value = IntNum 1, depth = 2\<rparr>,
               best_depth = 2\<rparr>"
  obtain w where w: "start_session ?env ''startpos'' 8 None = Inr w"
    by (simp add: start_eval)
  have pre: "\<forall>l \<in> set ?pre. \<not> is_bestmove_line l"
    by (simp add: is_bestmove_line_def py_strip_def py_startswith_def is_space_def)
  have bm: "is_bestmove_line ''bestmove\<newline>''"
    by (simp add: is_bestmove_line_def py_strip_def py_startswith_def is_space_def)
  have one: "length (py_split (py_strip ''bestmove\<newline>'')) < 2"
    by (simp add: py_strip_def py_split_def is_space_def)
  have loop0: "read_loop (llist_of ?pre) init_state = Some (Inr ?st)"
    by (simp add: session_eval parse_eval)
  let ?out = "lprepend ?pre (LCons ''bestmove\<newline>'' LNil)"
  note main = bare_bestmove_line [OF pre bm one w, where rest = LNil]
  from main have same: "read_loop ?out init_state = read_loop (llist_of ?pre) init_state"
    by (rule conjunct1)
  have loop1: "read_loop ?out init_state = Some (Inr ?st)"
    using same loop0 by (rule trans)
  from main have eq: "query_engine (?env\<lparr>stdout_lines := ?out\<rparr>) ''startpos'' 8 None
                      = query_engine (?env\<lparr>stdout_lines := llist_of ?pre\<rparr>) ''startpos'' 8 None"
    by blast
  from main have "\<forall>st stderr_output.
             read_loop ?out init_state = Some (Inr st)
             \<and> quit_write_error ?env = None
             \<and> communicate ?env = Exited 0 stderr_output
             \<longrightarrow> query_engine (?env\<lparr>stdout_lines := ?out\<rparr>) ''startpos'' 8 None
                   = Some (Inl (RuntimeError ''Stockfish did not report a best move''))"
    by blast
  with loop1 have q1: "query_engine (?env\<lparr>stdout_lines := ?out\<rparr>) ''startpos'' 8 None
                   = Some (Inl (RuntimeError ''Stockfish did not report a best move''))"
    by simp
  with eq have q0: "query_engine (?env\<lparr>stdout_lines := llist_of ?pre\<rparr>) ''startpos'' 8 None
                   = Some (Inl (RuntimeError ''Stockfish did not report a best move''))"
    by simp
  from loop1 q1 q0 show ?thesis by simp
qed

text \<open>
  The claim as stated fails: with a first \<^verbatim>\<open>bestmove\<close> line that has no second token
  and exit code 3, the call fails with the RuntimeError of the exit-code check and
  not with the one that reports the missing best move.
\<close>

theorem bare_bestmove_nonzero_exit:
  "read_loop (llist_of [''bestmove\<newline>'']) init_state = Some (Inr init_state)
   \<and> query_engine
     \<lparr>popen_error = None, stdin_open = True, stdout_open = True, script_write_error = None,
      stdout_lines = llist_of [''bestmove\<newline>''],
      quit_write_error = None, communicate = Exited 3 ''boom''\<rparr>
     ''startpos'' 8 None
   = Some (Inl (RuntimeError ''Stockfish process failed: boom''))
   \<and> RuntimeError ''Stockfish process failed: boom''
     \<noteq> RuntimeError ''Stockfish did not report a best move''"
  by (simp add: session_eval str_nat.simps)

subsection \<open>Stripping and lower case\<close>

lemma py_strip_decompose:
  "\<exists>l r. s = l @ py_strip s @ r \<and> (\<forall>c \<in> set l. is_space c) \<and> (\<forall>c \<in> set r. is_space c)"
proof -
  let ?l = "takeWhile is_space s"
  let ?m = "dropWhile is_space s"
  let ?r = "rev (takeWhile is_space (rev ?m))"
  have m: "?m = py_strip s @ ?r"
  proof -
    have "rev (rev ?m) = rev (takeWhile is_space (rev ?m) @ dropWhile is_space (rev ?m))"
      by (simp only: takeWhile_dropWhile_id)
    then have "?m = rev (dropWhile is_space (rev ?m)) @ rev (takeWhile is_space (rev ?m))"
      by (simp only: rev_append rev_rev_ident)
    then show ?thesis by (simp only: py_strip_def)
  qed
  have "s = ?l @ ?m" by simp
  with m have "s = ?l @ py_strip s @ ?r" by simp
  moreover have "\<forall>c \<in> set ?l. is_space c" by (auto dest: set_takeWhileD)
  moreover have "\<forall>c \<in> set ?r. is_space c" by (auto dest: set_takeWhileD)
  ultimately show ?thesis by blast
qed

lemma py_strip_core:
  assumes "\<forall>c \<in> set l. is_space c" and "\<forall>c \<in> set r. is_space c"
    and "core \<noteq> []" and "\<not> is_space (hd core)" and "\<not> is_space (last core)"
  shows "py_strip (l @ core @ r) = core"
proof -
  from assms(1,3,4) have d1: "dropWhile is_space (l @ core @ r) = core @ r"
    by (cases core) (simp_all add: dropWhile_append)
  from assms(3) obtain b x where core: "core = b @ [x]"
    by (metis rev_exhaust)
  with assms(5) have x: "\<not> is_space x" by simp
  from assms(2) have "\<forall>c \<in> set (rev r). is_space c" by simp
  then have "dropWhile is_space (rev r @ rev core) = rev core"
    using x by (simp add: core dropWhile_append)
  then show ?thesis by (simp add: py_strip_def d1)
qed

lemma lower_char_small_letter:
  assumes d: "(of_char d :: nat) = k" and D: "(of_char D :: nat) = k - 32"
    and k: "97 \<le> k" "k \<le> 122"
  shows "lower_char c = d \<longleftrightarrow> c = d \<or> c = D"
proof -
  define n where "n = (of_char c :: nat)"
  have lt: "n < 256" by (simp add: n_def)
  have cd: "c = d \<longleftrightarrow> n = k"
    using of_char_eq_iff [of c d, where ?'a = nat] d by (simp add: n_def)
  have cD: "c = D \<longleftrightarrow> n = k - 32"
    using of_char_eq_iff [of c D, where ?'a = nat] D by (simp add: n_def)
  have up: "char_of (n + 32) = d \<longleftrightarrow> (n + 32) mod 256 = k"
    using char_of_eq_iff [of "n + 32" d] d by (simp add: take_bit_eq_mod)
  have unf: "lower_char c =
      (if (65 \<le> n \<and> n \<le> 90) \<or> (192 \<le> n \<and> n \<le> 222 \<and> n \<noteq> 215)
       then char_of (n + 32) else c)"
    by (simp add: lower_char_def n_def Let_def)
  have both: "c = d \<or> c = D \<longleftrightarrow> n = k \<or> n = k - 32"
    by (simp only: cd cD)
  show ?thesis
  proof (cases "(65 \<le> n \<and> n \<le> 90) \<or> (192 \<le> n \<and> n \<le> 222 \<and> n \<noteq> 215)")
    case True
    then have low: "lower_char c = char_of (n + 32)" by (simp only: unf if_True)
    from True lt have "n + 32 < 256" by arith
    then have "(n + 32) mod 256 = n + 32" by (rule mod_less)
    with up have "lower_char c = d \<longleftrightarrow> n + 32 = k" by (simp only: low)
    moreover from True k have "n + 32 = k \<longleftrightarrow> n = k \<or> n = k - 32" by arith
    ultimately show ?thesis by (simp only: both)
  next
    case False
    then have "lower_char c = c" by (simp only: unf if_False)
    then have "lower_char c = d \<longleftrightarrow> n = k" by (simp only: cd)
    moreover from False k have "n = k \<longleftrightarrow> n = k \<or> n = k - 32" by arith
    ultimately show ?thesis by (simp only: both)
  qed
qed

lemma py_lower_true: "py_lower s = ''true'' \<longleftrightarrow> matches_true s"
proof -
  have t: "lower_char c = CHR ''t'' \<longleftrightarrow> c = CHR ''t'' \<or> c = CHR ''T''" for c
    by (rule lower_char_small_letter [where k = 116]) simp_all
  have r: "lower_char c = CHR ''r'' \<longleftrightarrow> c = CHR ''r'' \<or> c = CHR ''R''" for c
    by (rule lower_char_small_letter [where k = 114]) simp_all
  have u: "lower_char c = CHR ''u'' \<longleftrightarrow> c = CHR ''u'' \<or> c = CHR ''U''" for c
    by (rule lower_char_small_letter [where k = 117]) simp_all
  have e: "lower_char c = CHR ''e'' \<longleftrightarrow> c = CHR ''e'' \<or> c = CHR ''E''" for c
    by (rule lower_char_small_letter [where k = 101]) simp_all
  show ?thesis
    by (auto simp: py_lower_def matches_true_def t r u e split: list.splits)
qed

lemma matches_true_ends:
  "matches_true core \<Longrightarrow> core \<noteq> [] \<and> \<not> is_space (hd core) \<and> \<not> is_space (last core)"
  by (auto simp: matches_true_def is_space_def split: list.splits)

text \<open>
  C8.  The readiness probe returns \<^verbatim>\<open>False\<close>, and raises nothing, when there is no
  \<^verbatim>\<open>docker\<close> executable and when the inspection command fails.  When the inspection
  succeeds it returns \<^verbatim>\<open>True\<close> exactly when its output is the word \<^verbatim>\<open>true\<close>, in small
  or capital letters, between any whitespace.
\<close>

theorem is_service_ready_sentinel:
  "is_service_ready (RunRaises FileNotFoundError) = Inr False
   \<and> is_service_ready (RunRaises CalledProcessError) = Inr False
   \<and> (\<forall>out. \<exists>b. is_service_ready (Completed out) = Inr b
          \<and> (b \<longleftrightarrow> (\<exists>l core r. out = l @ core @ r
                        \<and> (\<forall>c \<in> set l. is_space c) \<and> (\<forall>c \<in> set r. is_space c)
                        \<and> matches_true core)))"
proof (intro conjI allI)
  show "is_service_ready (RunRaises FileNotFoundError) = Inr False"
    by (simp add: is_service_ready_def)
  show "is_service_ready (RunRaises CalledProcessError) = Inr False"
    by (simp add: is_service_ready_def)
  fix out
  have "py_lower (py_strip out) = ''true''
          \<longleftrightarrow> (\<exists>l core r. out = l @ core @ r
                 \<and> (\<forall>c \<in> set l. is_space c) \<and> (\<forall>c \<in> set r. is_space c)
                 \<and> matches_true core)" (is "?L \<longleftrightarrow> ?R")
  proof
    assume ?L
    then have "matches_true (py_strip out)" by (simp add: py_lower_true)
    with py_strip_decompose [of out] show ?R by blast
  next
    assume ?R
    then obtain l core r where out: "out = l @ core @ r"
      and l: "\<forall>c \<in> set l. is_space c" and r: "\<forall>c \<in> set r. is_space c"
      and core: "matches_true core" by blast
    from matches_true_ends [OF core] have "py_strip (l @ core @ r) = core"
      by (intro py_strip_core [OF l r]) simp_all
    with core out show ?L by (simp add: py_lower_true)
  qed
  then have iff: "(py_lower (py_strip out) = ''true'')
          \<longleftrightarrow> (\<exists>l core r. out = l @ core @ r
                 \<and> (\<forall>c \<in> set l. is_space c) \<and> (\<forall>c \<in> set r. is_space c)
                 \<and> matches_true core)" .
  have val: "is_service_ready (Completed out) = Inr (py_lower (py_strip out) = ''true'')"
    by (simp add: is_service_ready_def)
  from val iff show "\<exists>b. is_service_ready (Completed out) = Inr b
          \<and> (b \<longleftrightarrow> (\<exists>l core r. out = l @ core @ r
                        \<and> (\<forall>c \<in> set l. is_space c) \<and> (\<forall>c \<in> set r. is_space c)
                        \<and> matches_true core))"
    by (intro exI conjI)
qed

theorem is_service_ready_sentinel_witness:
  "is_service_ready (Completed ''true\<newline>'') = Inr True
   \<and> is_service_ready (Completed '' TRUE '') = Inr True
   \<and> is_service_ready (Completed ''false\<newline>'') = Inr False
   \<and> is_service_ready (RunRaises FileNotFoundError) = Inr False
   \<and> is_service_ready (RunRaises CalledProcessError) = Inr False"
proof -
  note main = is_service_ready_sentinel
  have sp: "is_space (CHR 0x0A)" "is_space (CHR '' '')" by (simp_all add: is_space_def)
  from main have "\<forall>out. \<exists>b. is_service_ready (Completed out) = Inr b
          \<and> (b \<longleftrightarrow> (\<exists>l core r. out = l @ core @ r
                        \<and> (\<forall>c \<in> set l. is_space c) \<and> (\<forall>c \<in> set r. is_space c)
                        \<and> matches_true core))"
    by (rule conjunct2 [OF conjunct2])
  then have "\<exists>b. is_service_ready (Completed ''true\<newline>'') = Inr b
          \<and> (b \<longleftrightarrow> (\<exists>l core r. ''true\<newline>'' = l @ core @ r
                        \<and> (\<forall>c \<in> set l. is_space c) \<and> (\<forall>c \<in> set r. is_space c)
                        \<and> matches_true core))"
    by (rule spec)
  then obtain b1 where both: "is_service_ready (Completed ''true\<newline>'') = Inr b1
          \<and> (b1 \<longleftrightarrow> (\<exists>l core r. ''true\<newline>'' = l @ core @ r
                        \<and> (\<forall>c \<in> set l. is_space c) \<and> (\<forall>c \<in> set r. is_space c)
                        \<and> matches_true core))" ..
  then have b1: "is_service_ready (Completed ''true\<newline>'') = Inr b1" by (rule conjunct1)
  from both have i1: "b1 \<longleftrightarrow> (\<exists>l core r. ''true\<newline>'' = l @ core @ r
                        \<and> (\<forall>c \<in> set l. is_space c) \<and> (\<forall>c \<in> set r. is_space c)
                        \<and> matches_true core)" by (rule conjunct2)
  have "''true\<newline>'' = [] @ ''true'' @ ''\<newline>'' \<and> (\<forall>c \<in> set []. is_space c)
          \<and> (\<forall>c \<in> set ''\<newline>''. is_space c) \<and> matches_true ''true''"
    by (simp add: sp matches_true_def)
  then have "\<exists>l core r. ''true\<newline>'' = l @ core @ r
                        \<and> (\<forall>c \<in> set l. is_space c) \<and> (\<forall>c \<in> set r. is_space c)
                        \<and> matches_true core" by (intro exI)
  with i1 have "b1" by (rule iffD2)
  with b1 have t1: "is_service_ready (Completed ''true\<newline>'') = Inr True" by simp
  have "py_strip '' TRUE '' = ''TRUE''" by (simp add: py_strip_def is_space_def)
  moreover have "py_lower ''TRUE'' = ''true''"
    by (simp add: py_lower_def lower_char_def char_of_eq_iff take_bit_eq_mod)
  ultimately have t2: "is_service_ready (Completed '' TRUE '') = Inr True"
    by (simp add: is_service_ready_def)
  have "py_strip ''false\<newline>'' = ''false''" by (simp add: py_strip_def is_space_def)
  moreover have "py_lower ''false'' = ''false''" by (simp add: py_lower_def lower_char_def)
  ultimately have t3: "is_service_ready (Completed ''false\<newline>'') = Inr False"
    by (simp add: is_service_ready_def)
  from main have t4: "is_service_ready (RunRaises FileNotFoundError) = Inr False"
    by (rule conjunct1)
  from main have t5: "is_service_ready (RunRaises CalledProcessError) = Inr False"
    by (rule conjunct1 [OF conjunct2])
  from t1 t2 t3 t4 t5 show ?thesis by (intro conjI)
qed

subsection \<open>Rounding to binary64\<close>

lemma two_powi_pos: "0 < (2::rat) powi e"
  by (simp add: zero_less_power_int)

lemma two_powi_add: "(2::rat) powi (a + b) = 2 powi a * 2 powi b"
  by (rule power_int_add) simp

lemma floor_log2_bounds:
  assumes "0 < x"
  shows "2 powi floor_log2 x \<le> x \<and> x < 2 powi (floor_log2 x + 1)"
proof (cases "1 \<le> x")
  case True
  let ?n = "\<lfloor>x\<rfloor>"
  from True have n: "0 < ?n" by simp
  from bitlen_bounds [OF n] have lo: "2 ^ nat (bitlen ?n - 1) \<le> ?n" and hi: "?n < 2 ^ nat (bitlen ?n)"
    by simp_all
  from n have b1: "1 \<le> bitlen ?n" by (simp add: bitlen_alt_def)
  have e: "floor_log2 x = bitlen ?n - 1" using True by (simp add: floor_log2_def)
  have "(2::rat) powi (bitlen ?n - 1) = 2 ^ nat (bitlen ?n - 1)"
    using b1 by (simp add: power_int_def)
  also have "\<dots> = of_int (2 ^ nat (bitlen ?n - 1))" by simp
  also have "\<dots> \<le> of_int ?n" using lo by (simp only: of_int_le_iff)
  also have "\<dots> \<le> x" by simp
  finally have low: "2 powi (bitlen ?n - 1) \<le> x" .
  from hi have "?n + 1 \<le> 2 ^ nat (bitlen ?n)" by simp
  then have "(of_int (?n + 1) :: rat) \<le> of_int (2 ^ nat (bitlen ?n))" by (simp only: of_int_le_iff)
  moreover have "x < of_int (?n + 1)" by linarith
  ultimately have "x < of_int (2 ^ nat (bitlen ?n))" by simp
  moreover have "(2::rat) powi (bitlen ?n - 1 + 1) = 2 ^ nat (bitlen ?n)"
    using b1 by (simp add: power_int_def)
  ultimately have "x < 2 powi (bitlen ?n - 1 + 1)" by simp
  with low show ?thesis by (simp only: e)
next
  case False
  let ?y = "1 / x"
  let ?m = "\<lceil>?y\<rceil> - 1"
  from False assms have y1: "1 < ?y" by simp
  then have "2 \<le> \<lceil>?y\<rceil>" by linarith
  then have m: "0 < ?m" by simp
  from bitlen_bounds [OF m] have lo: "2 ^ nat (bitlen ?m - 1) \<le> ?m" and hi: "?m < 2 ^ nat (bitlen ?m)"
    by simp_all
  from m have b1: "1 \<le> bitlen ?m" by (simp add: bitlen_alt_def)
  have e: "floor_log2 x = - bitlen ?m" using False by (simp add: floor_log2_def)
  have my: "of_int ?m < ?y" by linarith
  have ym: "?y \<le> of_int (?m + 1)" by simp
  from hi have "?m + 1 \<le> 2 ^ nat (bitlen ?m)" by simp
  then have "(of_int (?m + 1) :: rat) \<le> of_int (2 ^ nat (bitlen ?m))" by (simp only: of_int_le_iff)
  with ym have "?y \<le> of_int (2 ^ nat (bitlen ?m))" by (rule order_trans)
  also have "\<dots> = 2 ^ nat (bitlen ?m)" by simp
  finally have "?y \<le> 2 ^ nat (bitlen ?m)" .
  then have "1 \<le> x * 2 ^ nat (bitlen ?m)" using assms by (simp add: field_simps)
  then have "1 / 2 ^ nat (bitlen ?m) \<le> x" by (simp add: field_simps)
  moreover have "(2::rat) powi (- bitlen ?m) = 1 / 2 ^ nat (bitlen ?m)"
    using b1 by (simp add: power_int_def field_simps)
  ultimately have low: "2 powi (- bitlen ?m) \<le> x" by simp
  from lo have "(of_int (2 ^ nat (bitlen ?m - 1)) :: rat) \<le> of_int ?m" by (simp only: of_int_le_iff)
  then have "(of_int (2 ^ nat (bitlen ?m - 1)) :: rat) < ?y" using my by (rule le_less_trans)
  moreover have "(of_int (2 ^ nat (bitlen ?m - 1)) :: rat) = 2 ^ nat (bitlen ?m - 1)" by simp
  ultimately have "2 ^ nat (bitlen ?m - 1) < ?y" by (simp only:)
  then have "x * 2 ^ nat (bitlen ?m - 1) < 1" using assms by (simp add: field_simps)
  then have "x < 1 / 2 ^ nat (bitlen ?m - 1)" by (simp add: field_simps)
  moreover have "(2::rat) powi (- bitlen ?m + 1) = 1 / 2 ^ nat (bitlen ?m - 1)"
  proof -
    have "- bitlen ?m + 1 = - (bitlen ?m - 1)" by simp
    then have "(2::rat) powi (- bitlen ?m + 1) = 2 powi (- (bitlen ?m - 1))" by simp
    also have "\<dots> = 1 / 2 powi (bitlen ?m - 1)" by (rule power_int_minus_divide)
    also have "\<dots> = 1 / 2 ^ nat (bitlen ?m - 1)" using b1 by (simp add: power_int_def)
    finally show ?thesis .
  qed
  ultimately have "x < 2 powi (- bitlen ?m + 1)" by simp
  with low show ?thesis by (simp only: e)
qed

lemma floor_log2_unique:
  assumes "0 < x" and "2 powi e \<le> x" and "x < 2 powi (e + 1)"
  shows "floor_log2 x = e"
proof -
  let ?f = "floor_log2 x"
  from floor_log2_bounds [OF assms(1)] have f1: "2 powi ?f \<le> x" and f2: "x < 2 powi (?f + 1)"
    by simp_all
  have "\<not> ?f < e"
  proof
    assume "?f < e"
    then have "?f + 1 \<le> e" by simp
    then have "(2::rat) powi (?f + 1) \<le> 2 powi e" by (intro power_int_increasing) simp_all
    with f2 assms(2) show False by simp
  qed
  moreover have "\<not> e < ?f"
  proof
    assume "e < ?f"
    then have "e + 1 \<le> ?f" by simp
    then have "(2::rat) powi (e + 1) \<le> 2 powi ?f" by (intro power_int_increasing) simp_all
    with f1 assms(3) show False by simp
  qed
  ultimately show ?thesis by simp
qed

lemma round_half_even_of_int: "round_half_even (of_int k) = k"
  by (simp add: round_half_even_def)

lemma round_half_even_bounds: "\<lfloor>y\<rfloor> \<le> round_half_even y \<and> round_half_even y \<le> \<lfloor>y\<rfloor> + 1"
  by (simp add: round_half_even_def Let_def)

lemma round_half_even_le:
  assumes "y < of_int N"
  shows "round_half_even y \<le> N"
proof -
  from assms have "\<lfloor>y\<rfloor> < N" by (simp add: floor_less_iff)
  with round_half_even_bounds [of y] show ?thesis by simp
qed

lemma round_half_even_ge:
  assumes "of_int N \<le> y"
  shows "N \<le> round_half_even y"
proof -
  from assms have "N \<le> \<lfloor>y\<rfloor>" by (simp add: le_floor_iff)
  with round_half_even_bounds [of y] show ?thesis by simp
qed

lemma float_limit_powi: "float_limit = 2 powi 1024"
  by (simp only: float_limit_def power_int_numeral)

lemma float_ulp_pos: "0 < float_ulp x"
  by (simp add: float_ulp_def two_powi_pos)

lemma round_magnitude_nonneg: "0 \<le> round_magnitude x"
proof -
  have "0 \<le> \<bar>x\<bar> / float_ulp x" using float_ulp_pos [of x] by simp
  then have "0 \<le> round_half_even (\<bar>x\<bar> / float_ulp x)"
    using round_half_even_ge [of 0 "\<bar>x\<bar> / float_ulp x"] by simp
  then show ?thesis using float_ulp_pos [of x] by (simp add: round_magnitude_def)
qed

lemma float_ulp_certified:
  assumes "x \<noteq> 0" and "2 powi e \<le> \<bar>x\<bar>" and "\<bar>x\<bar> < 2 powi (e + 1)"
  shows "float_ulp x = 2 powi (max e (- 1022) - 52)"
proof -
  from assms(1) have "0 < \<bar>x\<bar>" by simp
  from floor_log2_unique [OF this assms(2,3)] show ?thesis
    by (simp only: float_ulp_def)
qed

lemma round_to_double_Finite_bound:
  assumes "round_to_double x = Finite q"
  shows "\<bar>q\<bar> < float_limit"
proof (cases "x = 0")
  case True
  with assms have "q = 0" by (simp add: round_to_double_def)
  then show ?thesis by (simp add: float_limit_def)
next
  case False
  with assms have "\<not> float_limit \<le> round_magnitude x"
    and "q = (if x < 0 then - round_magnitude x else round_magnitude x)"
    by (simp_all add: round_to_double_def split: if_splits)
  with round_magnitude_nonneg [of x] show ?thesis by (simp split: if_splits)
qed

text \<open>The rounded magnitude of \<open>x\<close> is at most the next power of two.\<close>

lemma round_magnitude_le:
  assumes "x \<noteq> 0"
  shows "round_magnitude x \<le> 2 powi (max (floor_log2 \<bar>x\<bar>) (- 1022) + 1)"
proof -
  define e where "e = floor_log2 \<bar>x\<bar>"
  define e' where "e' = max e (- 1022)"
  define u where "u = float_ulp x"
  have u: "0 < u" by (simp add: u_def float_ulp_pos)
  have ue: "u = 2 powi (e' - 52)" by (simp add: u_def float_ulp_def e'_def e_def)
  from assms have pos: "0 < \<bar>x\<bar>" by simp
  from floor_log2_bounds [OF pos] have hi: "\<bar>x\<bar> < 2 powi (e + 1)"
    by (simp add: e_def)
  have split: "(2::rat) powi (e' + 1) = 2 powi 53 * u"
  proof -
    have "e' + 1 = 53 + (e' - 52)" by simp
    then have "(2::rat) powi (e' + 1) = 2 powi (53 + (e' - 52))" by (simp only:)
    also have "\<dots> = 2 powi 53 * 2 powi (e' - 52)" by (rule two_powi_add)
    finally show ?thesis by (simp only: ue)
  qed
  have "(2::rat) powi (e + 1) \<le> 2 powi (e' + 1)"
    by (intro power_int_increasing) (simp_all add: e'_def)
  with hi have "\<bar>x\<bar> < 2 powi (e' + 1)" by simp
  then have "\<bar>x\<bar> < 2 powi 53 * u" by (simp only: split)
  then have "\<bar>x\<bar> / u < 2 powi 53" using u by (simp add: field_simps)
  moreover have "(2::rat) powi 53 = of_int (2 ^ 53)" by simp
  ultimately have "\<bar>x\<bar> / u < of_int (2 ^ 53)" by (simp only:)
  then have "round_half_even (\<bar>x\<bar> / u) \<le> 2 ^ 53" by (rule round_half_even_le)
  then have "(of_int (round_half_even (\<bar>x\<bar> / u)) :: rat) \<le> of_int (2 ^ 53)"
    by (simp only: of_int_le_iff)
  then have "of_int (round_half_even (\<bar>x\<bar> / u)) * u \<le> of_int (2 ^ 53) * u"
    using u by (intro mult_right_mono) simp_all
  moreover have "of_int (2 ^ 53) * u = 2 powi (e' + 1)"
    using split by simp
  ultimately show ?thesis
    by (simp only: round_magnitude_def u_def [symmetric] e'_def e_def)
qed

lemma round_to_double_finite:
  assumes "\<bar>x\<bar> < 2 powi 1023"
  shows "\<exists>q. round_to_double x = Finite q"
proof (cases "x = 0")
  case True
  then show ?thesis by (simp add: round_to_double_def)
next
  case False
  define e where "e = floor_log2 \<bar>x\<bar>"
  from False have pos: "0 < \<bar>x\<bar>" by simp
  from floor_log2_bounds [OF pos] have lo: "2 powi e \<le> \<bar>x\<bar>" by (simp add: e_def)
  with assms have "(2::rat) powi e < 2 powi 1023" by simp
  then have "e < 1023" by (rule power_int_le_imp_less_exp [rotated]) simp_all
  then have e': "max e (- 1022) + 1 \<le> 1023" by simp
  from round_magnitude_le [OF False]
  have "round_magnitude x \<le> 2 powi (max e (- 1022) + 1)" by (simp only: e_def)
  also have "\<dots> \<le> 2 powi 1023" using e' by (intro power_int_increasing) simp_all
  also have "\<dots> < (2::rat) powi 1024" by (intro power_int_strict_increasing) simp_all
  finally have "\<not> float_limit \<le> round_magnitude x" by (simp only: float_limit_powi)
  with False show ?thesis by (simp add: round_to_double_def)
qed

lemma int_to_float_Inr:
  assumes "int_to_float n = Inr f"
  shows "\<exists>q. f = Finite q \<and> \<bar>q\<bar> < float_limit"
proof -
  from assms obtain q where q: "round_to_double (of_int n) = Finite q" and f: "f = Finite q"
    by (auto simp: int_to_float_def split: pyfloat.splits)
  from round_to_double_Finite_bound [OF q] f show ?thesis by simp
qed

text \<open>A centipawn score that can be computed at all is a finite float.\<close>

lemma centipawn_value_finite:
  assumes "int_truediv_float v (Finite 100) = Inr f"
  shows "\<exists>q. f = Finite q"
proof -
  from assms obtain a where a: "int_to_float v = Inr a" and d: "float_truediv a (Finite 100) = Inr f"
    by (auto simp: int_truediv_float_def split: sum.splits)
  from int_to_float_Inr [OF a] obtain q where q: "a = Finite q" and b: "\<bar>q\<bar> < float_limit" by blast
  from d q have f: "f = round_to_double (q / 100)" by simp
  from b have "\<bar>q / 100\<bar> < 2 powi 1023" by (simp add: float_limit_def)
  from round_to_double_finite [OF this] f show ?thesis by simp
qed

lemma round_to_double_value:
  assumes "x \<noteq> 0" and "2 powi e \<le> \<bar>x\<bar>" and "\<bar>x\<bar> < 2 powi (e + 1)" and "- 1022 \<le> e"
    and "round_half_even (\<bar>x\<bar> / 2 powi (e - 52)) = m"
    and "of_int m * 2 powi (e - 52) < float_limit"
  shows "round_to_double x =
           Finite (if x < 0 then - (of_int m * 2 powi (e - 52)) else of_int m * 2 powi (e - 52))"
proof -
  from assms(4) have "max e (- 1022) = e" by simp
  with float_ulp_certified [OF assms(1-3)] have "float_ulp x = 2 powi (e - 52)" by simp
  with assms(5) have "round_magnitude x = of_int m * 2 powi (e - 52)"
    by (simp add: round_magnitude_def)
  with assms(1,6) show ?thesis by (simp add: round_to_double_def)
qed

text \<open>An integer below \<open>2^53\<close> in magnitude converts to a float without rounding.\<close>

lemma int_to_float_exact:
  assumes "\<bar>n\<bar> < 2 ^ 53"
  shows "int_to_float n = Inr (Finite (of_int n))"
proof (cases "n = 0")
  case True
  then show ?thesis by (simp add: int_to_float_def round_to_double_def)
next
  case False
  define x :: rat where "x = of_int n"
  define e where "e = floor_log2 \<bar>x\<bar>"
  from False have x0: "x \<noteq> 0" and x1: "1 \<le> \<bar>x\<bar>" by (simp_all add: x_def)
  then have pos: "0 < \<bar>x\<bar>" by simp
  from floor_log2_bounds [OF pos] have lo: "2 powi e \<le> \<bar>x\<bar>" and hi: "\<bar>x\<bar> < 2 powi (e + 1)"
    by (simp_all add: e_def)
  have e0: "0 \<le> e"
  proof (rule ccontr)
    assume "\<not> 0 \<le> e"
    then have "e + 1 \<le> 0" by simp
    then have "(2::rat) powi (e + 1) \<le> 2 powi 0" by (intro power_int_increasing) simp_all
    with hi x1 show False by simp
  qed
  from assms have "\<bar>x\<bar> < of_int (2 ^ 53)" unfolding x_def
    by (simp only: of_int_abs [symmetric] of_int_less_iff)
  then have "\<bar>x\<bar> < 2 powi 53" by simp
  with lo have "(2::rat) powi e < 2 powi 53" by simp
  then have e53: "e < 53" by (rule power_int_le_imp_less_exp [rotated]) simp_all
  define k where "k = nat (52 - e)"
  have "e - 52 = - int k" using e53 by (simp add: k_def)
  then have "(2::rat) powi (e - 52) = 2 powi (- int k)" by simp
  also have "\<dots> = 1 / 2 powi (int k)" by (rule power_int_minus_divide)
  finally have u: "(2::rat) powi (e - 52) = 1 / 2 ^ k" by simp
  have ulp: "float_ulp x = 1 / 2 ^ k"
    using e0 u by (simp add: float_ulp_def e_def [symmetric])
  have q: "\<bar>x\<bar> / (1 / 2 ^ k) = of_int (\<bar>n\<bar> * 2 ^ k)" by (simp add: x_def)
  have "round_half_even (\<bar>x\<bar> / float_ulp x) = \<bar>n\<bar> * 2 ^ k"
    by (simp only: ulp q round_half_even_of_int)
  then have "round_magnitude x = of_int (\<bar>n\<bar> * 2 ^ k) * (1 / 2 ^ k)"
    by (simp only: round_magnitude_def ulp)
  also have "\<dots> = \<bar>x\<bar>" by (simp add: x_def)
  finally have rm: "round_magnitude x = \<bar>x\<bar>" .
  from \<open>\<bar>x\<bar> < 2 powi 53\<close> have "\<bar>x\<bar> < 2 powi 1024"
    by (rule less_le_trans) (intro power_int_increasing, simp_all)
  then have "\<not> float_limit \<le> round_magnitude x" by (simp only: rm float_limit_powi not_le)
  with x0 rm have "round_to_double x = Finite x" by (simp add: round_to_double_def)
  then show ?thesis by (simp add: int_to_float_def x_def)
qed

text \<open>A centipawn score of small magnitude is the binary64 number nearest to \<open>v / 100\<close>.\<close>

lemma centipawn_value_small:
  assumes "\<bar>v\<bar> < 2 ^ 53"
  shows "int_truediv_float v (Finite 100) = Inr (round_to_double (of_int v / 100))"
  using int_to_float_exact [OF assms] by (simp add: int_truediv_float_def)

lemma floor_rat_numeral_divide:
  "\<lfloor>(numeral a :: rat) / numeral b\<rfloor> = numeral a div numeral b"
  using floor_divide_of_int_eq [of "numeral a" "numeral b", where ?'a = rat] by simp

text \<open>Centipawn values of the examples, as binary64 numbers.\<close>

lemma centipawns_10:
  "int_truediv_float 10 (Finite 100) = Inr (Finite (3602879701896397 / 36028797018963968))"
proof -
  have "round_to_double (1 / 10) = Finite (3602879701896397 / 36028797018963968)"
    using round_to_double_value [of "1 / 10" "- 4" 7205759403792794]
    by (simp add: round_half_even_def float_limit_def Let_def floor_rat_numeral_divide)
  then show ?thesis using centipawn_value_small [of 10] by simp
qed

lemma centipawns_20:
  "int_truediv_float 20 (Finite 100) = Inr (Finite (3602879701896397 / 18014398509481984))"
proof -
  have "round_to_double (1 / 5) = Finite (3602879701896397 / 18014398509481984)"
    using round_to_double_value [of "1 / 5" "- 3" 7205759403792794]
    by (simp add: round_half_even_def float_limit_def Let_def floor_rat_numeral_divide)
  then show ?thesis using centipawn_value_small [of 20] by simp
qed

lemma centipawns_30:
  "int_truediv_float 30 (Finite 100) = Inr (Finite (5404319552844595 / 18014398509481984))"
proof -
  have "round_to_double (3 / 10) = Finite (5404319552844595 / 18014398509481984)"
    using round_to_double_value [of "3 / 10" "- 2" 5404319552844595]
    by (simp add: round_half_even_def float_limit_def Let_def floor_rat_numeral_divide)
  then show ?thesis using centipawn_value_small [of 30] by simp
qed

lemma centipawns_40:
  "int_truediv_float 40 (Finite 100) = Inr (Finite (3602879701896397 / 9007199254740992))"
proof -
  have "round_to_double (2 / 5) = Finite (3602879701896397 / 9007199254740992)"
    using round_to_double_value [of "2 / 5" "- 2" 7205759403792794]
    by (simp add: round_half_even_def float_limit_def Let_def floor_rat_numeral_divide)
  then show ?thesis using centipawn_value_small [of 40] by simp
qed

lemma centipawns_50:
  "int_truediv_float 50 (Finite 100) = Inr (Finite (1 / 2))"
proof -
  have "round_to_double (1 / 2) = Finite (1 / 2)"
    using round_to_double_value [of "1 / 2" "- 1" 4503599627370496]
    by (simp add: round_half_even_def float_limit_def Let_def floor_rat_numeral_divide)
  then show ?thesis using centipawn_value_small [of 50] by simp
qed

lemma centipawns_25:
  "int_truediv_float 25 (Finite 100) = Inr (Finite (1 / 4))"
proof -
  have "round_to_double (1 / 4) = Finite (1 / 4)"
    using round_to_double_value [of "1 / 4" "- 2" 4503599627370496]
    by (simp add: round_half_even_def float_limit_def Let_def floor_rat_numeral_divide)
  then show ?thesis using centipawn_value_small [of 25] by simp
qed

lemmas centipawns = centipawns_10 centipawns_20 centipawns_30 centipawns_40 centipawns_50
  centipawns_25

lemma round_half_even_ge_half:
  assumes "of_int N - 1 / 2 \<le> y" and "even N"
  shows "N \<le> round_half_even y"
proof -
  let ?f = "\<lfloor>y\<rfloor>"
  from assms(1) have "of_int (N - 1) \<le> y" by simp
  then have f: "N - 1 \<le> ?f" by (simp only: le_floor_iff)
  show ?thesis
  proof (cases "N \<le> ?f")
    case True
    with round_half_even_bounds [of y] show ?thesis by simp
  next
    case False
    with f have fe: "?f = N - 1" by simp
    with assms(2) have odd: "odd ?f" by simp
    from assms(1) fe have "1 / 2 \<le> y - of_int ?f" by simp
    with odd fe show ?thesis by (simp add: round_half_even_def Let_def)
  qed
qed

lemma round_half_even_lt_half:
  assumes "y < of_int N - 1 / 2"
  shows "round_half_even y \<le> N - 1"
proof -
  let ?f = "\<lfloor>y\<rfloor>"
  from assms have "y < of_int N" by simp
  then have f: "?f \<le> N - 1" by (simp add: floor_less_iff)
  show ?thesis
  proof (cases "?f = N - 1")
    case True
    with assms have "y - of_int ?f < 1 / 2" by simp
    with True show ?thesis by (simp add: round_half_even_def Let_def)
  next
    case False
    with f have "?f + 1 \<le> N - 1" by simp
    with round_half_even_bounds [of y] show ?thesis by simp
  qed
qed

text \<open>
  \<^verbatim>\<open>float(n)\<close> raises OverflowError exactly from \<open>2^1024 - 2^970\<close> on, in magnitude.
\<close>

lemma int_to_float_overflow_iff:
  "int_to_float n = Inl OverflowError \<longleftrightarrow> float_overflow_int \<le> \<bar>n\<bar>"
proof (cases "n = 0")
  case True
  then show ?thesis
    by (simp add: int_to_float_def round_to_double_def float_overflow_int_def)
next
  case False
  define x :: rat where "x = of_int n"
  define e where "e = floor_log2 \<bar>x\<bar>"
  define u where "u = float_ulp x"
  define y where "y = \<bar>x\<bar> / u"
  from False have x0: "x \<noteq> 0" and x1: "1 \<le> \<bar>x\<bar>" by (simp_all add: x_def)
  then have pos: "0 < \<bar>x\<bar>" by simp
  from floor_log2_bounds [OF pos] have lo: "2 powi e \<le> \<bar>x\<bar>" and hi: "\<bar>x\<bar> < 2 powi (e + 1)"
    by (simp_all add: e_def)
  have e0: "0 \<le> e"
  proof (rule ccontr)
    assume "\<not> 0 \<le> e"
    then have "e + 1 \<le> 0" by simp
    then have "(2::rat) powi (e + 1) \<le> 2 powi 0" by (intro power_int_increasing) simp_all
    with hi x1 show False by simp
  qed
  have u: "u = 2 powi (e - 52)" using e0 by (simp add: u_def float_ulp_def e_def)
  have upos: "0 < u" by (simp add: u two_powi_pos)
  have rm: "round_magnitude x = of_int (round_half_even y) * u"
    by (simp add: round_magnitude_def y_def u_def)
  have over: "int_to_float n = Inl OverflowError \<longleftrightarrow> 2 powi 1024 \<le> round_magnitude x"
    using x0 by (simp add: int_to_float_def round_to_double_def x_def [symmetric] float_limit_powi)
  have bound: "float_overflow_int \<le> \<bar>n\<bar> \<longleftrightarrow> 2 powi 1024 - 2 powi 970 \<le> \<bar>x\<bar>"
  proof -
    have "(of_int float_overflow_int :: rat) = 2 powi 1024 - 2 powi 970"
      by (simp add: float_overflow_int_def)
    moreover have "\<bar>x\<bar> = of_int \<bar>n\<bar>" by (simp add: x_def)
    ultimately have "2 powi 1024 - 2 powi 970 \<le> \<bar>x\<bar>
        \<longleftrightarrow> (of_int float_overflow_int :: rat) \<le> of_int \<bar>n\<bar>" by (simp only:)
    then show ?thesis by (simp only: of_int_le_iff)
  qed
  have half: "((2::rat) powi 1024 - 2 powi 970) / 2 powi 971 = of_int (2 ^ 53) - 1 / 2"
    by simp
  have full: "of_int (2 ^ 53) * (2::rat) powi 971 = 2 powi 1024" by simp
  show ?thesis
  proof (cases "e \<le> 1022")
    case True
    then have "max e (- 1022) + 1 \<le> 1023" by simp
    then have "(2::rat) powi (max e (- 1022) + 1) \<le> 2 powi 1023"
      by (intro power_int_increasing) simp_all
    with round_magnitude_le [OF x0] have "round_magnitude x \<le> 2 powi 1023"
      by (simp add: e_def)
    also have "\<dots> < (2::rat) powi 1024" by (intro power_int_strict_increasing) simp_all
    finally have no: "\<not> 2 powi 1024 \<le> round_magnitude x" by simp
    from True have "(2::rat) powi (e + 1) \<le> 2 powi 1023" by (intro power_int_increasing) simp_all
    with hi have "\<bar>x\<bar> < 2 powi 1023" by simp
    moreover have "(2::rat) powi 1023 \<le> 2 powi 1024 - 2 powi 970" by simp
    ultimately have "\<not> 2 powi 1024 - 2 powi 970 \<le> \<bar>x\<bar>" by simp
    with no show ?thesis by (simp only: over bound)
  next
    case False
    show ?thesis
    proof (cases "e = 1023")
      case True
      then have u971: "u = 2 powi 971" by (simp add: u)
      show ?thesis
      proof (cases "2 powi 1024 - 2 powi 970 \<le> \<bar>x\<bar>")
        case big: True
        then have "(2 powi 1024 - 2 powi 970) / 2 powi 971 \<le> y"
          unfolding y_def u971 by (intro divide_right_mono) simp_all
        then have "of_int (2 ^ 53) - 1 / 2 \<le> y" by (simp only: half)
        then have "2 ^ 53 \<le> round_half_even y" by (rule round_half_even_ge_half) simp
        then have "(of_int (2 ^ 53) :: rat) \<le> of_int (round_half_even y)"
          by (simp only: of_int_le_iff)
        then have "of_int (2 ^ 53) * u \<le> of_int (round_half_even y) * u"
          using upos by (intro mult_right_mono) simp_all
        then have "2 powi 1024 \<le> round_magnitude x" by (simp only: rm u971 full)
        with big show ?thesis by (simp only: over bound)
      next
        case small: False
        then have "\<bar>x\<bar> < 2 powi 1024 - 2 powi 970" by simp
        then have "y < (2 powi 1024 - 2 powi 970) / 2 powi 971"
          unfolding y_def u971 by (intro divide_strict_right_mono) simp_all
        then have "y < of_int (2 ^ 53) - 1 / 2" by (simp only: half)
        then have "round_half_even y \<le> 2 ^ 53 - 1" by (rule round_half_even_lt_half)
        then have "(of_int (round_half_even y) :: rat) \<le> of_int (2 ^ 53 - 1)"
          by (simp only: of_int_le_iff)
        then have "of_int (round_half_even y) * u \<le> of_int (2 ^ 53 - 1) * u"
          using upos by (intro mult_right_mono) simp_all
        also have "of_int (2 ^ 53 - 1) * u < 2 powi 1024" by (simp add: u971)
        finally have "\<not> 2 powi 1024 \<le> round_magnitude x" by (simp only: rm not_le)
        with small show ?thesis by (simp only: over bound)
      qed
    next
      case ne: False
      with False have e1024: "1024 \<le> e" by simp
      then have "(2::rat) powi 1024 \<le> 2 powi e" by (intro power_int_increasing) simp_all
      with lo have big: "2 powi 1024 \<le> \<bar>x\<bar>" by simp
      have "(2::rat) powi e = 2 powi 52 * u"
        using two_powi_add [of 52 "e - 52"] by (simp add: u)
      with lo have "2 powi 52 * u \<le> \<bar>x\<bar>" by simp
      then have "2 powi 52 \<le> y" using upos by (simp add: y_def field_simps)
      then have "of_int (2 ^ 52) \<le> y" by simp
      then have "2 ^ 52 \<le> round_half_even y" by (rule round_half_even_ge)
      then have "(of_int (2 ^ 52) :: rat) \<le> of_int (round_half_even y)"
        by (simp only: of_int_le_iff)
      then have "of_int (2 ^ 52) * u \<le> of_int (round_half_even y) * u"
        using upos by (intro mult_right_mono) simp_all
      moreover have "of_int (2 ^ 52) * u = 2 powi e"
        using two_powi_add [of 52 "e - 52"] by (simp add: u)
      ultimately have "2 powi e \<le> round_magnitude x" by (simp only: rm)
      with \<open>(2::rat) powi 1024 \<le> 2 powi e\<close> have yes: "2 powi 1024 \<le> round_magnitude x"
        by (rule order_trans)
      from big have "2 powi 1024 - 2 powi 970 \<le> \<bar>x\<bar>" by simp
      with yes show ?thesis by (simp only: over bound)
    qed
  qed
qed

subsection \<open>Tracking the best evaluation\<close>

lemma read_bestmove_keeps_evaluation:
  "cur_evaluation (read_bestmove line st) = cur_evaluation st
   \<and> best_depth (read_bestmove line st) = best_depth st"
  by (simp add: read_bestmove_def Let_def split: option.splits)

lemma loop_body_continue_tracks:
  assumes "loop_body l st = Continue st'"
  shows "(cur_evaluation st', best_depth st') =
           (case parsed_of_line l of
              None \<Rightarrow> (cur_evaluation st, best_depth st)
            | Some e \<Rightarrow> track (cur_evaluation st, best_depth st) e)"
  using assms
  by (auto simp: loop_body_def track_info_def parsed_of_line_def is_info_line_def track_def
        py_startswith_def Let_def split: if_splits sum.splits option.splits)

lemma parsed_evaluations_Cons:
  "parsed_evaluations (l # ls) =
     (case parsed_of_line l of None \<Rightarrow> parsed_evaluations ls
      | Some e \<Rightarrow> e # parsed_evaluations ls)"
  by (simp add: parsed_evaluations_def map_filter_simps split: option.splits)

lemma read_loop_is_fold:
  assumes "read_loop (llist_of ls) st = Some (Inr st')"
  shows "(cur_evaluation st', best_depth st') =
           foldl track (cur_evaluation st, best_depth st)
             (parsed_evaluations (lines_before_bestmove ls))"
  using assms
proof (induction ls arbitrary: st)
  case Nil
  then show ?case
    by (simp add: read_loop_LNil parsed_evaluations_def lines_before_bestmove_def map_filter_simps)
next
  case (Cons l ls)
  show ?case
  proof (cases "is_bestmove_line l")
    case True
    with Cons.prems have "st' = read_bestmove (py_strip l) st"
      by (simp add: read_loop_LCons loop_body_bestmove)
    with True show ?thesis
      by (simp add: read_bestmove_keeps_evaluation lines_before_bestmove_def
            parsed_evaluations_def map_filter_simps)
  next
    case False
    show ?thesis
    proof (cases "loop_body l st")
      case (Continue st1)
      with Cons.prems have "read_loop (llist_of ls) st1 = Some (Inr st')"
        by (simp add: read_loop_LCons)
      from Cons.IH [OF this] loop_body_continue_tracks [OF Continue] False
      show ?thesis
        by (simp add: lines_before_bestmove_def parsed_evaluations_Cons split: option.splits)
    next
      case (Break st1)
      with loop_body_not_bestmove [OF False] show ?thesis by simp
    next
      case (Raise err)
      with Cons.prems show ?thesis by (simp add: read_loop_LCons)
    qed
  qed
qed

lemma deepest_latest_Some:
  assumes "deepest_latest es = Some m"
  shows "m \<in> set es \<and> depth m = Max (set (map depth es))"
proof -
  from assms have ne: "es \<noteq> []" by (auto simp: deepest_latest_def split: if_splits)
  let ?M = "Max (set (map depth es))"
  let ?F = "filter (\<lambda>e. depth e = ?M) es"
  from ne have "?M \<in> set (map depth es)" by (intro Max_in) simp_all
  then obtain e where "e \<in> set es" "depth e = ?M" by auto
  then have "?F \<noteq> []" by (auto simp: filter_empty_conv)
  then have "last ?F \<in> set ?F" by (rule last_in_set)
  moreover from assms ne have "m = last ?F" by (simp add: deepest_latest_def)
  ultimately show ?thesis by auto
qed

lemma deepest_latest_None: "deepest_latest es = None \<longleftrightarrow> es = []"
  by (simp add: deepest_latest_def)

lemma deepest_latest_snoc:
  "deepest_latest (es @ [x]) =
     (case deepest_latest es of
        None \<Rightarrow> Some x
      | Some m \<Rightarrow> if depth m \<le> depth x then Some x else Some m)"
proof (cases "es = []")
  case True
  then show ?thesis by (simp add: deepest_latest_def)
next
  case False
  let ?M = "Max (set (map depth es))"
  have old: "deepest_latest es = Some (last (filter (\<lambda>e. depth e = ?M) es))"
    using False by (simp only: deepest_latest_def if_False)
  from deepest_latest_Some [OF old] have dm: "depth (last (filter (\<lambda>e. depth e = ?M) es)) = ?M"
    by simp
  from False have M': "Max (set (map depth (es @ [x]))) = max (depth x) ?M"
    by (simp add: Max_insert)
  have new: "deepest_latest (es @ [x]) =
               Some (last (filter (\<lambda>e. depth e = max (depth x) ?M) (es @ [x])))"
    by (simp only: deepest_latest_def M') simp
  show ?thesis
  proof (cases "?M \<le> depth x")
    case True
    then have "max (depth x) ?M = depth x" by simp
    then have "deepest_latest (es @ [x]) = Some x" by (simp only: new) simp
    with True dm show ?thesis by (simp add: old)
  next
    case lt: False
    then have mx: "max (depth x) ?M = ?M" by simp
    from lt have "depth x \<noteq> ?M" by simp
    then have "filter (\<lambda>e. depth e = ?M) (es @ [x]) = filter (\<lambda>e. depth e = ?M) es" by simp
    then have "deepest_latest (es @ [x]) = deepest_latest es"
      by (simp only: new old mx)
    with lt dm show ?thesis by (simp add: old)
  qed
qed

lemma fold_track_deepest_latest:
  "foldl track (ev, b) es =
     (case deepest_latest (filter (\<lambda>e. b \<le> depth e) es) of
        None \<Rightarrow> (ev, b)
      | Some e \<Rightarrow> (Some e, depth e))"
proof (induction es rule: rev_induct)
  case Nil
  show ?case by (simp add: deepest_latest_def)
next
  case (snoc x es)
  let ?F = "filter (\<lambda>e. b \<le> depth e) es"
  have step: "foldl track (ev, b) (es @ [x]) = track (foldl track (ev, b) es) x" by simp
  have filt: "filter (\<lambda>e. b \<le> depth e) (es @ [x]) = (if b \<le> depth x then ?F @ [x] else ?F)"
    by simp
  show ?case
  proof (cases "deepest_latest ?F")
    case None
    then have F: "?F = []" by (simp add: deepest_latest_None)
    from None snoc have st: "foldl track (ev, b) es = (ev, b)" by simp
    show ?thesis unfolding step st filt F by (simp add: track_def deepest_latest_def)
  next
    case (Some m)
    from deepest_latest_Some [OF Some] have "m \<in> set ?F" by simp
    then have bm: "b \<le> depth m" by simp
    from Some snoc have st: "foldl track (ev, b) es = (Some m, depth m)" by simp
    show ?thesis
    proof (cases "b \<le> depth x")
      case True
      then show ?thesis unfolding step st filt
        by (simp add: track_def deepest_latest_snoc Some)
    next
      case False
      with bm have "\<not> depth m \<le> depth x" by simp
      with False show ?thesis unfolding step st filt by (simp add: track_def Some)
    qed
  qed
qed

lemma read_loop_stops_at_bestmove:
  assumes "\<exists>l \<in> set ls. is_bestmove_line l"
  shows "read_loop (lprepend ls rest) st = read_loop (llist_of ls) st"
  using assms
proof (induction ls arbitrary: st)
  case Nil
  then show ?case by simp
next
  case (Cons l ls)
  show ?case
  proof (cases "is_bestmove_line l")
    case True
    then show ?thesis by (simp add: read_loop_LCons loop_body_bestmove)
  next
    case False
    with Cons.prems have ex: "\<exists>l \<in> set ls. is_bestmove_line l" by simp
    show ?thesis
      using Cons.IH [OF ex] by (cases "loop_body l st") (simp_all add: read_loop_LCons)
  qed
qed

text \<open>
  C1 (as amended).  Let the read loop end without an exception, having read the
  lines \<open>ls\<close>: the output ends after them, or one of them starts with \<^verbatim>\<open>bestmove\<close>.
  The tracked evaluation is then the deepest, and among the deepest the latest, of
  the evaluations parsed from the \<^verbatim>\<open>info\<close> lines before the terminal line whose depth
  is at least \<open>-1\<close>, the initial value of \<^verbatim>\<open>best_depth\<close>; it is \<^verbatim>\<open>None\<close> when there is
  none.  When no parsed depth is below \<open>-1\<close> (so when all depths are non-negative),
  it is the deepest and latest of all parsed evaluations.
\<close>

theorem tracked_best_is_deepest_latest:
  assumes "read_loop (lprepend ls rest) init_state = Some (Inr st)"
    and "rest = LNil \<or> (\<exists>l \<in> set ls. is_bestmove_line l)"
  shows "cur_evaluation st =
           deepest_latest (filter (\<lambda>e. - 1 \<le> depth e)
                             (parsed_evaluations (lines_before_bestmove ls)))
       \<and> ((\<forall>e \<in> set (parsed_evaluations (lines_before_bestmove ls)). - 1 \<le> depth e)
            \<longrightarrow> cur_evaluation st
                  = deepest_latest (parsed_evaluations (lines_before_bestmove ls)))"
proof -
  let ?es = "parsed_evaluations (lines_before_bestmove ls)"
  have "read_loop (lprepend ls rest) init_state = read_loop (llist_of ls) init_state"
  proof (cases "rest = LNil")
    case True
    then show ?thesis by (simp add: llist_of_lprepend)
  next
    case False
    with assms(2) have "\<exists>l \<in> set ls. is_bestmove_line l" by simp
    then show ?thesis by (rule read_loop_stops_at_bestmove)
  qed
  with assms(1) have "read_loop (llist_of ls) init_state = Some (Inr st)" by simp
  from read_loop_is_fold [OF this]
  have "(cur_evaluation st, best_depth st) = foldl track (None, - 1) ?es"
    by (simp add: init_state_simps)
  then have first: "cur_evaluation st = deepest_latest (filter (\<lambda>e. - 1 \<le> depth e) ?es)"
    by (simp add: fold_track_deepest_latest split: option.splits)
  moreover have "filter (\<lambda>e. - 1 \<le> depth e) ?es = ?es" if "\<forall>e \<in> set ?es. - 1 \<le> depth e"
    using that by (simp add: filter_id_conv)
  ultimately show ?thesis by simp
qed

theorem tracked_best_is_deepest_latest_witness:
  "read_loop
     (lprepend [''info depth 3 score cp 10\<newline>'', ''info depth 1 score cp 20\<newline>'',
                ''info depth 5 score cp 30\<newline>'', ''info depth 5 score cp 40\<newline>'',
                ''info depth 2 score cp 50\<newline>''] LNil)
     init_state
   = Some (Inr \<lparr>cur_bestmove = None, cur_ponder = None,
                cur_evaluation =
                  Some \<lparr>score_type = ''cp'',
                        score_value = FloatNum (Finite (3602879701896397 / 9007199254740992)),
                        depth = 5\<rparr>,
                best_depth = 5\<rparr>)
   \<and> deepest_latest
       (parsed_evaluations
          (lines_before_bestmove
             [''info depth 3 score cp 10\<newline>'', ''info depth 1 score cp 20\<newline>'',
              ''info depth 5 score cp 30\<newline>'', ''info depth 5 score cp 40\<newline>'',
              ''info depth 2 score cp 50\<newline>'']))
     = Some \<lparr>score_type = ''cp'',
             score_value = FloatNum (Finite (3602879701896397 / 9007199254740992)),
             depth = 5\<rparr>"
proof -
  let ?ls = "[''info depth 3 score cp 10\<newline>'', ''info depth 1 score cp 20\<newline>'',
              ''info depth 5 score cp 30\<newline>'', ''info depth 5 score cp 40\<newline>'',
              ''info depth 2 score cp 50\<newline>'']"
  let ?e = "\<lparr>score_type = ''cp'',
             score_value = FloatNum (Finite (3602879701896397 / 9007199254740992)),
             depth = 5\<rparr>"
  let ?st = "\<lparr>cur_bestmove = None, cur_ponder = None, cur_evaluation = Some ?e,
               best_depth = 5\<rparr>"
  have loop: "read_loop (lprepend ?ls LNil) init_state = Some (Inr ?st)"
    by (simp add: session_eval parse_eval centipawns)
  have es: "parsed_evaluations (lines_before_bestmove ?ls) =
              [\<lparr>score_type = ''cp'',
                score_value = FloatNum (Finite (3602879701896397 / 36028797018963968)),
                depth = 3\<rparr>,
               \<lparr>score_type = ''cp'',
                score_value = FloatNum (Finite (3602879701896397 / 18014398509481984)),
                depth = 1\<rparr>,
               \<lparr>score_type = ''cp'',
                score_value = FloatNum (Finite (5404319552844595 / 18014398509481984)),
                depth = 5\<rparr>,
               ?e,
               \<lparr>score_type = ''cp'', score_value = FloatNum (Finite (1 / 2)), depth = 2\<rparr>]"
    by (simp add: parsed_evaluations_def lines_before_bestmove_def is_bestmove_line_def
          map_filter_simps parsed_of_line_def is_info_line_def py_strip_def py_split_def
          py_startswith_def is_space_def parse_eval centipawns)
  have all: "\<forall>e \<in> set (parsed_evaluations (lines_before_bestmove ?ls)). - 1 \<le> depth e"
    by (simp only: es) simp
  from tracked_best_is_deepest_latest [OF loop] all
  have "cur_evaluation ?st = deepest_latest (parsed_evaluations (lines_before_bestmove ?ls))"
    by blast
  then have "deepest_latest (parsed_evaluations (lines_before_bestmove ?ls)) = Some ?e"
    by simp
  with loop show ?thesis by (intro conjI)
qed

text \<open>
  The claim as stated fails: an \<^verbatim>\<open>info\<close> line with depth \<open>-2\<close> parses, and it is the
  only and so the deepest parsed evaluation, but the loop tracks nothing.
\<close>

theorem depth_below_initial_best_depth_not_tracked:
  "read_loop (llist_of [''info depth -2 score mate 3\<newline>'']) init_state
   = Some (Inr \<lparr>cur_bestmove = None, cur_ponder = None, cur_evaluation = None,
                best_depth = - 1\<rparr>)
   \<and> deepest_latest
       (parsed_evaluations (lines_before_bestmove [''info depth -2 score mate 3\<newline>'']))
     = Some \<lparr>score_type = ''mate'', score_value = IntNum 3, depth = - 2\<rparr>"
proof -
  let ?ls = "[''info depth -2 score mate 3\<newline>'']"
  have "read_loop (llist_of ?ls) init_state
          = Some (Inr \<lparr>cur_bestmove = None, cur_ponder = None, cur_evaluation = None,
                       best_depth = - 1\<rparr>)"
    by (simp add: session_eval parse_eval)
  moreover have "parsed_evaluations (lines_before_bestmove ?ls)
          = [\<lparr>score_type = ''mate'', score_value = IntNum 3, depth = - 2\<rparr>]"
    by (simp add: parsed_evaluations_def lines_before_bestmove_def is_bestmove_line_def
          map_filter_simps parsed_of_line_def is_info_line_def py_strip_def py_split_def
          py_startswith_def is_space_def parse_eval)
  moreover have "deepest_latest [\<lparr>score_type = ''mate'', score_value = IntNum 3, depth = - 2\<rparr>]
          = Some \<lparr>score_type = ''mate'', score_value = IntNum 3, depth = - 2\<rparr>"
    by (simp add: deepest_latest_def)
  ultimately show ?thesis by simp
qed

subsection \<open>Decimal text of integers\<close>

declare str_nat.simps [simp del]

lemma digit_char_is_digit: "k < 10 \<Longrightarrow> is_digit (digit_char k)"
  by (simp add: is_digit_def digit_char_def nth_Cons' )

lemma digit_val_digit_char: "k < 10 \<Longrightarrow> digit_val (digit_char k) = k"
proof -
  assume "k < 10"
  then have "k \<in> {0, 1, 2, 3, 4, 5, 6, 7, 8, 9}" by auto
  then show ?thesis by (auto simp: digit_val_def digit_char_def)
qed

lemma str_nat_digits: "str_nat n \<noteq> [] \<and> (\<forall>c \<in> set (str_nat n). is_digit c)"
proof (induction n rule: str_nat.induct)
  case (1 n)
  show ?case
  proof (cases "n < 10")
    case True
    then show ?thesis by (subst (1 2) str_nat.simps) (simp add: digit_char_is_digit)
  next
    case False
    with 1 have "\<forall>c \<in> set (str_nat (n div 10)). is_digit c" by simp
    moreover have "is_digit (digit_char (n mod 10))" by (simp add: digit_char_is_digit)
    ultimately show ?thesis using False by (subst (1 2) str_nat.simps) simp
  qed
qed

lemma digits_value_snoc: "digits_value (ds @ [c]) = 10 * digits_value ds + digit_val c"
  by (simp add: digits_value_def)

lemma digits_value_str_nat: "digits_value (str_nat n) = n"
proof (induction n rule: str_nat.induct)
  case (1 n)
  show ?case
  proof (cases "n < 10")
    case True
    then show ?thesis
      by (subst str_nat.simps) (simp add: digits_value_def digit_val_digit_char)
  next
    case False
    with 1 have "digits_value (str_nat (n div 10)) = n div 10" by simp
    then show ?thesis using False
      by (subst str_nat.simps) (simp add: digits_value_snoc digit_val_digit_char)
  qed
qed

lemma underscore_not_digit: "\<not> is_digit (CHR ''_'')"
  by (simp add: is_digit_def)

lemma digitpart_all_digits:
  "s \<noteq> [] \<Longrightarrow> \<forall>c \<in> set s. is_digit c \<Longrightarrow> digitpart s"
proof (induction s rule: digitpart.induct)
  case 1
  then show ?case by simp
next
  case (2 c)
  then show ?case by simp
next
  case (3 c d r)
  from "3.prems" have "d \<noteq> CHR ''_''" using underscore_not_digit by auto
  with 3 show ?case by simp
qed

lemma py_int_unsigned:
  "c \<noteq> CHR ''-'' \<Longrightarrow> c \<noteq> CHR ''+'' \<Longrightarrow>
     py_int (c # r) =
       (if int_digits_ok (c # r) then Some (int (digits_value (filter is_digit (c # r))))
        else None)"
  by (simp add: py_int_def)

lemma py_int_signed:
  "py_int (CHR ''-'' # r) =
     (if int_digits_ok r then Some (- int (digits_value (filter is_digit r))) else None)"
  by (simp add: py_int_def)

text \<open>A string of digits is accepted exactly when it is not longer than the limit.\<close>

lemma int_digits_ok_all_digits:
  assumes "s \<noteq> []" and "\<forall>c \<in> set s. is_digit c"
  shows "int_digits_ok s \<longleftrightarrow> length s \<le> int_max_str_digits"
proof -
  from assms have "digitpart s" by (rule digitpart_all_digits)
  moreover from assms(2) have "filter is_digit s = s" by simp
  ultimately show ?thesis by (simp add: int_digits_ok_def)
qed

text \<open>The number of digits of a natural number.\<close>

lemma length_str_nat_le: "0 < k \<Longrightarrow> length (str_nat n) \<le> k \<longleftrightarrow> n < 10 ^ k"
proof (induction n arbitrary: k rule: str_nat.induct)
  case (1 n)
  show ?case
  proof (cases "n < 10")
    case True
    have "(10::nat) ^ 1 \<le> 10 ^ k" using "1.prems" by (intro power_increasing) simp_all
    with True have "n < 10 ^ k" by simp
    moreover have "length (str_nat n) = 1" using True by (subst str_nat.simps) simp
    ultimately show ?thesis using "1.prems" by simp
  next
    case False
    have len: "length (str_nat n) = Suc (length (str_nat (n div 10)))"
      using False by (subst str_nat.simps) simp
    show ?thesis
    proof (cases k)
      case 0
      with "1.prems" show ?thesis by simp
    next
      case (Suc j)
      show ?thesis
      proof (cases "j = 0")
        case True
        from str_nat_digits [of "n div 10"] have "0 < length (str_nat (n div 10))" by simp
        with len True Suc False show ?thesis by simp
      next
        case j: False
        with "1.IH" [OF False, of j] have "length (str_nat (n div 10)) \<le> j \<longleftrightarrow> n div 10 < 10 ^ j"
          by simp
        moreover have "n div 10 < 10 ^ j \<longleftrightarrow> n < 10 ^ Suc j"
          by (simp add: div_less_iff_less_mult mult.commute)
        ultimately show ?thesis using len Suc by simp
      qed
    qed
  qed
qed

lemma int_max_str_digits_pos: "0 < int_max_str_digits"
  by (simp add: int_max_str_digits_def)

lemma str_nat_within_limit:
  "length (str_nat n) \<le> int_max_str_digits \<longleftrightarrow> n < 10 ^ int_max_str_digits"
  by (rule length_str_nat_le [OF int_max_str_digits_pos])

lemma nat_abs_within_limit:
  "nat \<bar>n\<bar> < 10 ^ int_max_str_digits \<longleftrightarrow> \<bar>n\<bar> < 10 ^ int_max_str_digits"
proof -
  have "int (nat \<bar>n\<bar>) < int (10 ^ int_max_str_digits) \<longleftrightarrow> nat \<bar>n\<bar> < 10 ^ int_max_str_digits"
    by (rule of_nat_less_iff)
  then show ?thesis by simp
qed

lemma py_int_str_nat:
  "py_int (str_nat n) = (if n < 10 ^ int_max_str_digits then Some (int n) else None)"
proof -
  from str_nat_digits [of n] obtain c r where s: "str_nat n = c # r" and
    all: "\<forall>c \<in> set (str_nat n). is_digit c"
    by (cases "str_nat n") auto
  from s all have "is_digit c" by simp
  then have c: "c \<noteq> CHR ''-''" "c \<noteq> CHR ''+''" by (auto simp: is_digit_def)
  from str_nat_digits [of n]
  have ok: "int_digits_ok (str_nat n) \<longleftrightarrow> n < 10 ^ int_max_str_digits"
    by (simp add: int_digits_ok_all_digits str_nat_within_limit)
  from all have filt: "filter is_digit (str_nat n) = str_nat n" by simp
  have "py_int (str_nat n) =
          (if int_digits_ok (str_nat n)
           then Some (int (digits_value (filter is_digit (str_nat n)))) else None)"
    unfolding s by (rule py_int_unsigned [OF c])
  then show ?thesis by (simp only: ok filt digits_value_str_nat)
qed

text \<open>
  \<^verbatim>\<open>int(s)\<close> on the decimal text of \<open>n\<close> is \<open>n\<close> when \<open>n\<close> has no more digits than the
  limit, and raises ValueError otherwise.
\<close>

lemma py_int_str_int:
  "py_int (str_int n) = (if \<bar>n\<bar> < 10 ^ int_max_str_digits then Some n else None)"
proof (cases "n < 0")
  case True
  define m where "m = nat \<bar>n\<bar>"
  from True have shape: "str_int n = CHR ''-'' # str_nat m" and neg: "- int m = n"
    by (simp_all add: str_int_def m_def)
  from str_nat_digits [of m]
  have ok: "int_digits_ok (str_nat m) \<longleftrightarrow> m < 10 ^ int_max_str_digits"
    by (simp add: int_digits_ok_all_digits str_nat_within_limit)
  from str_nat_digits [of m] have filt: "filter is_digit (str_nat m) = str_nat m" by simp
  have lim: "m < 10 ^ int_max_str_digits \<longleftrightarrow> \<bar>n\<bar> < 10 ^ int_max_str_digits"
    unfolding m_def by (rule nat_abs_within_limit)
  have "py_int (str_int n) =
          (if int_digits_ok (str_nat m)
           then Some (- int (digits_value (filter is_digit (str_nat m)))) else None)"
    unfolding shape by (rule py_int_signed)
  then show ?thesis by (simp only: ok filt digits_value_str_nat neg lim)
next
  case False
  define m where "m = nat \<bar>n\<bar>"
  from False have shape: "str_int n = str_nat m" and pos: "int m = n"
    by (simp_all add: str_int_def m_def)
  have lim: "m < 10 ^ int_max_str_digits \<longleftrightarrow> \<bar>n\<bar> < 10 ^ int_max_str_digits"
    unfolding m_def by (rule nat_abs_within_limit)
  have "py_int (str_int n) = (if m < 10 ^ int_max_str_digits then Some (int m) else None)"
    unfolding shape by (rule py_int_str_nat)
  then show ?thesis by (simp only: pos lim)
qed

text \<open>\<^verbatim>\<open>str(n)\<close> raises exactly for the integers of more digits than the limit.\<close>

lemma py_str_int_cases:
  "py_str_int n = (if \<bar>n\<bar> < 10 ^ int_max_str_digits then Inr (str_int n) else Inl ValueError)"
proof -
  have "int_max_str_digits < length (str_nat (nat \<bar>n\<bar>))
          \<longleftrightarrow> \<not> \<bar>n\<bar> < 10 ^ int_max_str_digits"
    using str_nat_within_limit [of "nat \<bar>n\<bar>"] nat_abs_within_limit [of n] by auto
  then show ?thesis by (simp add: py_str_int_def)
qed

lemma within_limit:
  fixes n :: int
  assumes "\<bar>n\<bar> < 10 ^ k" and "k \<le> int_max_str_digits"
  shows "\<bar>n\<bar> < 10 ^ int_max_str_digits"
proof -
  from assms(2) have "(10::int) ^ k \<le> 10 ^ int_max_str_digits"
    by (intro power_increasing) simp_all
  with assms(1) show ?thesis by (rule less_le_trans)
qed

lemma str_int_chars: "str_int n \<noteq> [] \<and> (\<forall>c \<in> set (str_int n). is_digit c \<or> c = CHR ''-'')"
  using str_nat_digits by (auto simp: str_int_def)

lemma str_int_word: "str_int n \<noteq> [] \<and> (\<forall>c \<in> set (str_int n). \<not> is_space c)"
proof -
  have "\<not> is_space c" if "is_digit c \<or> c = CHR ''-''" for c
    using that by (auto simp: is_digit_def is_space_def)
  with str_int_chars [of n] show ?thesis by blast
qed

subsection \<open>The parser on lines made of words\<close>

lemma py_index_first:
  "key \<notin> set a \<Longrightarrow> py_index (a @ key # b) key = Some (length a)"
  by (induction a) auto

lemma py_getitem_after:
  "py_getitem (a @ key # v # b) (length a + 1) = Some v"
  by (simp add: py_getitem_def nth_append)

lemma py_getitem_after2:
  "py_getitem (a @ key # v # w # b) (length a + 2) = Some w"
  by (simp add: py_getitem_def nth_append)

lemma parse_depth_first:
  assumes "ts = c @ ''depth'' # sd # e" and "''depth'' \<notin> set c"
  shows "parse_depth ts = (case py_int sd of None \<Rightarrow> 0 | Some d \<Rightarrow> d)"
  using assms py_index_first [OF assms(2), of "sd # e"] py_getitem_after [of c "''depth''" sd e]
  by (simp add: parse_depth_def)

lemma parse_evaluation_first_score:
  assumes "py_split line = a @ ''score'' # stype # sv # b" and "''score'' \<notin> set a"
  shows "parse_evaluation line = make_evaluation stype sv (parse_depth (py_split line))"
  using assms py_index_first [OF assms(2), of "stype # sv # b"]
    py_getitem_after [of a "''score''" stype "sv # b"]
    py_getitem_after2 [of a "''score''" stype sv b]
  by (simp add: parse_evaluation_def Let_def)

lemma int_to_float_cases:
  "int_to_float n = Inl OverflowError \<or> (\<exists>q. int_to_float n = Inr (Finite q))"
  by (simp add: int_to_float_def split: pyfloat.splits)

text \<open>\<^verbatim>\<open>v / 100.0\<close> has a value, a finite one, for every \<open>v\<close> below the overflow bound.\<close>

lemma centipawn_value_defined:
  assumes "\<bar>v\<bar> < float_overflow_int"
  shows "\<exists>q. int_truediv_float v (Finite 100) = Inr (Finite q)"
proof -
  from assms have "int_to_float v \<noteq> Inl OverflowError"
    by (simp add: int_to_float_overflow_iff)
  with int_to_float_cases [of v] obtain a where "int_to_float v = Inr (Finite a)" by blast
  then have "int_truediv_float v (Finite 100) = Inr (round_to_double (a / 100))"
    by (simp add: int_truediv_float_def)
  with centipawn_value_finite [OF this] show ?thesis by auto
qed

lemma centipawn_value_overflow:
  assumes "float_overflow_int \<le> \<bar>v\<bar>"
  shows "int_truediv_float v (Finite 100) = Inl OverflowError"
  using assms by (simp add: int_truediv_float_def int_to_float_overflow_iff [symmetric])

lemma parse_evaluation_words:
  assumes "\<forall>t \<in> set ts. t \<noteq> [] \<and> (\<forall>c \<in> set t. \<not> is_space c)"
    and "ts = a @ ''score'' # stype # sv # b"
    and "''score'' \<notin> set a"
  shows "parse_evaluation (py_join '' '' ts) = make_evaluation stype sv (parse_depth ts)"
proof -
  from py_split_join [OF assms(1)] have sp: "py_split (py_join '' '' ts) = ts" .
  with assms(2) have "py_split (py_join '' '' ts) = a @ ''score'' # stype # sv # b" by simp
  from parse_evaluation_first_score [OF this assms(3)] show ?thesis by (simp only: sp)
qed

lemma cp_overflow_raises:
  assumes "\<forall>t \<in> set ts. t \<noteq> [] \<and> (\<forall>c \<in> set t. \<not> is_space c)"
    and "ts = a @ ''score'' # ''cp'' # sv # b"
    and "''score'' \<notin> set a"
    and "py_int sv = Some v"
    and "float_overflow_int \<le> \<bar>v\<bar>"
  shows "parse_evaluation (py_join '' '' ts) = Inl OverflowError"
  using parse_evaluation_words [OF assms(1-3)] assms(4) centipawn_value_overflow [OF assms(5)]
  by (simp add: make_evaluation_def)

text \<open>The digit 1 followed by zeros.\<close>

lemma digits_value_zeros:
  "digits_value (ds @ replicate n (CHR ''0'')) = digits_value ds * 10 ^ n"
proof (induction n)
  case 0
  show ?case by simp
next
  case (Suc n)
  have "ds @ replicate (Suc n) (CHR ''0'') = (ds @ replicate n (CHR ''0'')) @ [CHR ''0'']"
    by (simp add: replicate_append_same)
  then have "digits_value (ds @ replicate (Suc n) (CHR ''0''))
               = 10 * digits_value (ds @ replicate n (CHR ''0'')) + digit_val (CHR ''0'')"
    by (simp only: digits_value_snoc)
  with Suc show ?case by (simp add: digit_val_def)
qed

lemma one_zeros_digits:
  "''1'' @ replicate n (CHR ''0'') \<noteq> []
   \<and> (\<forall>c \<in> set (''1'' @ replicate n (CHR ''0'')). is_digit c)
   \<and> length (''1'' @ replicate n (CHR ''0'')) = Suc n
   \<and> digits_value (''1'' @ replicate n (CHR ''0'')) = 10 ^ n"
proof -
  let ?s = "''1'' @ replicate n (CHR ''0'')"
  have all: "\<forall>c \<in> set ?s. is_digit c" by (auto simp: is_digit_def)
  have "digits_value ?s = digits_value ''1'' * 10 ^ n" by (rule digits_value_zeros)
  then have val: "digits_value ?s = 10 ^ n" by (simp add: digits_value_def digit_val_def)
  from all val show ?thesis by simp
qed

lemma py_int_one_zeros:
  "py_int (''1'' @ replicate n (CHR ''0''))
     = (if n < int_max_str_digits then Some (10 ^ n) else None)"
proof -
  let ?s = "''1'' @ replicate n (CHR ''0'')"
  note d = one_zeros_digits [of n]
  from d have "int_digits_ok ?s \<longleftrightarrow> length ?s \<le> int_max_str_digits"
    by (intro int_digits_ok_all_digits) simp_all
  with d have ok: "int_digits_ok ?s \<longleftrightarrow> n < int_max_str_digits"
    by (simp only: Suc_le_eq)
  from d have all: "\<forall>c \<in> set ?s. is_digit c" by blast
  from all have filt: "filter is_digit ?s = ?s" by (simp only: filter_True)
  from d have val: "digits_value ?s = 10 ^ n" by simp
  have "py_int (CHR ''1'' # replicate n (CHR ''0'')) =
          (if int_digits_ok (CHR ''1'' # replicate n (CHR ''0''))
           then Some (int (digits_value (filter is_digit (CHR ''1'' # replicate n (CHR ''0'')))))
           else None)"
    by (rule py_int_unsigned) simp_all
  then have "py_int ?s
               = (if int_digits_ok ?s then Some (int (digits_value (filter is_digit ?s))) else None)"
    by simp
  then have "py_int ?s = (if n < int_max_str_digits then Some (int (10 ^ n)) else None)"
    by (simp only: ok filt val)
  then show ?thesis by simp
qed

lemma py_int_minus_one_zeros:
  "py_int (''-1'' @ replicate n (CHR ''0''))
     = (if n < int_max_str_digits then Some (- (10 ^ n)) else None)"
proof -
  let ?s = "''1'' @ replicate n (CHR ''0'')"
  note d = one_zeros_digits [of n]
  from d have "int_digits_ok ?s \<longleftrightarrow> length ?s \<le> int_max_str_digits"
    by (intro int_digits_ok_all_digits) simp_all
  with d have ok: "int_digits_ok ?s \<longleftrightarrow> n < int_max_str_digits"
    by (simp only: Suc_le_eq)
  from d have all: "\<forall>c \<in> set ?s. is_digit c" by blast
  from all have filt: "filter is_digit ?s = ?s" by (simp only: filter_True)
  from d have val: "digits_value ?s = 10 ^ n" by simp
  have "py_int (CHR ''-'' # ?s) =
          (if int_digits_ok ?s then Some (- int (digits_value (filter is_digit ?s))) else None)"
    by (rule py_int_signed)
  then have "py_int (CHR ''-'' # ?s) = (if n < int_max_str_digits then Some (- int (10 ^ n)) else None)"
    by (simp only: ok filt val)
  then show ?thesis by simp
qed

lemma overflow_int_le_power_10: "float_overflow_int \<le> 10 ^ 309"
  by (simp add: float_overflow_int_def)

lemma overflow_bound_within_limit:
  assumes "\<bar>v\<bar> < float_overflow_int"
  shows "\<bar>v\<bar> < 10 ^ int_max_str_digits"
proof -
  from assms overflow_int_le_power_10 have "\<bar>v\<bar> < 10 ^ 309" by simp
  moreover have "309 \<le> int_max_str_digits" by (simp add: int_max_str_digits_def)
  ultimately show ?thesis by (rule within_limit)
qed

lemma parse_depth_str_int:
  assumes "ts = c @ ''depth'' # str_int d # e" and "''depth'' \<notin> set c"
    and "\<bar>d\<bar> < 10 ^ int_max_str_digits"
  shows "parse_depth ts = d"
  using parse_depth_first [OF assms(1,2)] assms(3) by (simp add: py_int_str_int)

text \<open>
  C3 (as amended).  Let a line consist of words joined by single spaces, and let the
  first word \<^verbatim>\<open>score\<close> be followed by the score type and the decimal text of an
  integer \<open>v\<close>.  For the type \<^verbatim>\<open>cp\<close> and \<open>v\<close> of magnitude below \<open>2^1024 - 2^970\<close>, the
  float \<^verbatim>\<open>v / 100.0\<close> exists and is finite, and whenever the first word \<^verbatim>\<open>depth\<close> is
  followed by the decimal text of an integer \<open>d\<close> of at most 4300 digits, the parser
  returns the evaluation with type \<^verbatim>\<open>cp\<close>, value \<^verbatim>\<open>v / 100.0\<close> and depth \<open>d\<close>.  For the
  type \<^verbatim>\<open>mate\<close> and \<open>v\<close> of at most 4300 digits the parser returns an evaluation whose
  value is the integer \<open>v\<close> itself, with the depth \<open>d\<close> under the same condition.
\<close>

theorem parse_evaluation_well_formed:
  assumes "\<forall>t \<in> set ts. t \<noteq> [] \<and> (\<forall>c \<in> set t. \<not> is_space c)"
    and "ts = a @ ''score'' # stype # str_int v # b"
    and "''score'' \<notin> set a"
  shows "(stype = ''cp'' \<and> \<bar>v\<bar> < float_overflow_int \<longrightarrow>
            (\<exists>q. int_truediv_float v (Finite 100) = Inr (Finite q)
               \<and> (\<forall>c d e. ts = c @ ''depth'' # str_int d # e \<and> ''depth'' \<notin> set c
                          \<and> \<bar>d\<bar> < 10 ^ int_max_str_digits \<longrightarrow>
                      parse_evaluation (py_join '' '' ts)
                        = Inr (Some \<lparr>score_type = ''cp'', score_value = FloatNum (Finite q),
                                    depth = d\<rparr>))))
       \<and> (stype = ''mate'' \<and> \<bar>v\<bar> < 10 ^ int_max_str_digits \<longrightarrow>
            (\<exists>dp. parse_evaluation (py_join '' '' ts)
                     = Inr (Some \<lparr>score_type = ''mate'', score_value = IntNum v, depth = dp\<rparr>))
            \<and> (\<forall>c d e. ts = c @ ''depth'' # str_int d # e \<and> ''depth'' \<notin> set c
                       \<and> \<bar>d\<bar> < 10 ^ int_max_str_digits \<longrightarrow>
                   parse_evaluation (py_join '' '' ts)
                     = Inr (Some \<lparr>score_type = ''mate'', score_value = IntNum v, depth = d\<rparr>)))"
proof (intro conjI impI)
  assume cp: "stype = ''cp'' \<and> \<bar>v\<bar> < float_overflow_int"
  then obtain q where q: "int_truediv_float v (Finite 100) = Inr (Finite q)"
    using centipawn_value_defined by blast
  from cp have v: "py_int (str_int v) = Some v"
    by (simp add: py_int_str_int overflow_bound_within_limit)
  have "parse_evaluation (py_join '' '' ts)
          = Inr (Some \<lparr>score_type = ''cp'', score_value = FloatNum (Finite q), depth = d\<rparr>)"
    if "ts = c @ ''depth'' # str_int d # e \<and> ''depth'' \<notin> set c
        \<and> \<bar>d\<bar> < 10 ^ int_max_str_digits" for c d e
  proof -
    from that have "parse_depth ts = d" by (intro parse_depth_str_int [of ts c d e]) simp_all
    with parse_evaluation_words [OF assms] cp q v show ?thesis
      by (simp add: make_evaluation_def)
  qed
  with q show "\<exists>q. int_truediv_float v (Finite 100) = Inr (Finite q)
               \<and> (\<forall>c d e. ts = c @ ''depth'' # str_int d # e \<and> ''depth'' \<notin> set c
                          \<and> \<bar>d\<bar> < 10 ^ int_max_str_digits \<longrightarrow>
                      parse_evaluation (py_join '' '' ts)
                        = Inr (Some \<lparr>score_type = ''cp'', score_value = FloatNum (Finite q),
                                    depth = d\<rparr>))"
    by blast
next
  assume mate: "stype = ''mate'' \<and> \<bar>v\<bar> < 10 ^ int_max_str_digits"
  then have v: "py_int (str_int v) = Some v" by (simp add: py_int_str_int)
  with mate parse_evaluation_words [OF assms]
  have p: "parse_evaluation (py_join '' '' ts)
             = Inr (Some \<lparr>score_type = ''mate'', score_value = IntNum v,
                         depth = parse_depth ts\<rparr>)"
    by (simp add: make_evaluation_def)
  then show "\<exists>dp. parse_evaluation (py_join '' '' ts)
                = Inr (Some \<lparr>score_type = ''mate'', score_value = IntNum v, depth = dp\<rparr>)"
    by blast
  show "\<forall>c d e. ts = c @ ''depth'' # str_int d # e \<and> ''depth'' \<notin> set c
                 \<and> \<bar>d\<bar> < 10 ^ int_max_str_digits \<longrightarrow>
             parse_evaluation (py_join '' '' ts)
               = Inr (Some \<lparr>score_type = ''mate'', score_value = IntNum v, depth = d\<rparr>)"
  proof (intro allI impI)
    fix c d e
    assume "ts = c @ ''depth'' # str_int d # e \<and> ''depth'' \<notin> set c
            \<and> \<bar>d\<bar> < 10 ^ int_max_str_digits"
    then have "parse_depth ts = d" by (intro parse_depth_str_int [of ts c d e]) simp_all
    with p show "parse_evaluation (py_join '' '' ts)
               = Inr (Some \<lparr>score_type = ''mate'', score_value = IntNum v, depth = d\<rparr>)"
      by simp
  qed
qed

theorem parse_evaluation_well_formed_witness:
  "parse_evaluation ''info depth 12 seldepth 18 score cp 25 nodes 100''
     = Inr (Some \<lparr>score_type = ''cp'', score_value = FloatNum (Finite (1 / 4)), depth = 12\<rparr>)
   \<and> parse_evaluation ''info score cp -50 depth 7''
     = Inr (Some \<lparr>score_type = ''cp'', score_value = FloatNum (Finite (- (1 / 2))), depth = 7\<rparr>)
   \<and> parse_evaluation ''info depth 9 score mate -2''
     = Inr (Some \<lparr>score_type = ''mate'', score_value = IntNum (- 2), depth = 9\<rparr>)"
proof -
  have str: "str_int 25 = ''25''" "str_int 12 = ''12''" "str_int (- 50) = ''-50''"
    "str_int 7 = ''7''" "str_int (- 2) = ''-2''" "str_int 9 = ''9''"
    by (simp_all add: str_int_def digit_char_def str_nat.simps)
  have small: "\<bar>25\<bar> < float_overflow_int" "\<bar>- 50\<bar> < float_overflow_int"
    by (simp_all add: float_overflow_int_def)
  have "2 \<le> int_max_str_digits" by (simp add: int_max_str_digits_def)
  then have lim: "\<bar>12::int\<bar> < 10 ^ int_max_str_digits" "\<bar>9::int\<bar> < 10 ^ int_max_str_digits"
    "\<bar>- 2::int\<bar> < 10 ^ int_max_str_digits"
    by (intro within_limit [of _ 2]; simp)+
  let ?t1 = "[''info'', ''depth'', ''12'', ''seldepth'', ''18'', ''score'', ''cp'', ''25'',
              ''nodes'', ''100'']"
  have w1: "\<forall>t \<in> set ?t1. t \<noteq> [] \<and> (\<forall>c \<in> set t. \<not> is_space c)"
    by (simp add: is_space_def)
  have s1: "?t1 = [''info'', ''depth'', ''12'', ''seldepth'', ''18'']
                    @ ''score'' # ''cp'' # str_int 25 # [''nodes'', ''100'']"
    by (simp add: str)
  have n1: "''score'' \<notin> set [''info'', ''depth'', ''12'', ''seldepth'', ''18'']" by simp
  from parse_evaluation_well_formed [OF w1 s1 n1] small(1)
  obtain q1 where q1: "int_truediv_float 25 (Finite 100) = Inr (Finite q1)"
    and p1: "\<forall>c d e. ?t1 = c @ ''depth'' # str_int d # e \<and> ''depth'' \<notin> set c
                      \<and> \<bar>d\<bar> < 10 ^ int_max_str_digits \<longrightarrow>
               parse_evaluation (py_join '' '' ?t1)
                 = Inr (Some \<lparr>score_type = ''cp'', score_value = FloatNum (Finite q1),
                             depth = d\<rparr>)"
    by blast
  from q1 have "q1 = 1 / 4" by (simp add: centipawns_25)
  moreover have "?t1 = [''info''] @ ''depth'' # str_int 12
                          # [''seldepth'', ''18'', ''score'', ''cp'', ''25'', ''nodes'', ''100'']
                   \<and> ''depth'' \<notin> set [''info''] \<and> \<bar>12::int\<bar> < 10 ^ int_max_str_digits"
    using lim(1) by (simp add: str)
  ultimately have "parse_evaluation (py_join '' '' ?t1)
      = Inr (Some \<lparr>score_type = ''cp'', score_value = FloatNum (Finite (1 / 4)), depth = 12\<rparr>)"
    using p1 by blast
  then have r1: "parse_evaluation ''info depth 12 seldepth 18 score cp 25 nodes 100''
      = Inr (Some \<lparr>score_type = ''cp'', score_value = FloatNum (Finite (1 / 4)), depth = 12\<rparr>)"
    by simp
  have minus_half: "int_truediv_float (- 50) (Finite 100) = Inr (Finite (- (1 / 2)))"
  proof -
    have "round_to_double (- (1 / 2)) = Finite (- (1 / 2))"
      using round_to_double_value [of "- (1 / 2)" "- 1" 4503599627370496]
      by (simp add: round_half_even_def float_limit_def Let_def floor_rat_numeral_divide)
    then show ?thesis using centipawn_value_small [of "- 50"] by simp
  qed
  have r2: "parse_evaluation ''info score cp -50 depth 7''
      = Inr (Some \<lparr>score_type = ''cp'', score_value = FloatNum (Finite (- (1 / 2))), depth = 7\<rparr>)"
    by (simp add: parse_eval py_split_def is_space_def minus_half)
  let ?t3 = "[''info'', ''depth'', ''9'', ''score'', ''mate'', ''-2'']"
  have w3: "\<forall>t \<in> set ?t3. t \<noteq> [] \<and> (\<forall>c \<in> set t. \<not> is_space c)"
    by (simp add: is_space_def)
  have s3: "?t3 = [''info'', ''depth'', ''9''] @ ''score'' # ''mate'' # str_int (- 2) # []"
    by (simp add: str)
  have n3: "''score'' \<notin> set [''info'', ''depth'', ''9'']" by simp
  from parse_evaluation_well_formed [OF w3 s3 n3] lim(3)
  have p3: "\<forall>c d e. ?t3 = c @ ''depth'' # str_int d # e \<and> ''depth'' \<notin> set c
                      \<and> \<bar>d\<bar> < 10 ^ int_max_str_digits \<longrightarrow>
               parse_evaluation (py_join '' '' ?t3)
                 = Inr (Some \<lparr>score_type = ''mate'', score_value = IntNum (- 2), depth = d\<rparr>)"
    by blast
  moreover have "?t3 = [''info''] @ ''depth'' # str_int 9 # [''score'', ''mate'', ''-2'']
                   \<and> ''depth'' \<notin> set [''info''] \<and> \<bar>9::int\<bar> < 10 ^ int_max_str_digits"
    using lim(2) by (simp add: str)
  ultimately have "parse_evaluation (py_join '' '' ?t3)
      = Inr (Some \<lparr>score_type = ''mate'', score_value = IntNum (- 2), depth = 9\<rparr>)"
    by blast
  then have r3: "parse_evaluation ''info depth 9 score mate -2''
      = Inr (Some \<lparr>score_type = ''mate'', score_value = IntNum (- 2), depth = 9\<rparr>)"
    by simp
  from r1 r2 r3 show ?thesis by (intro conjI)
qed

text \<open>
  The claim as stated fails.  For the centipawn score \<open>10^309\<close> the conversion to a
  float overflows and the parser raises OverflowError in place of returning an
  evaluation.  A mate score of 4301 digits is refused by \<^verbatim>\<open>int\<close> and the parser returns
  nothing; a depth of 4301 digits is refused likewise and the depth returned is 0.
\<close>

theorem parse_evaluation_huge_centipawns:
  "parse_evaluation (''info score cp 1'' @ replicate 309 (CHR ''0'') @ '' depth 1'')
     = Inl OverflowError
   \<and> parse_evaluation (''info depth 1 score mate 1'' @ replicate 4300 (CHR ''0''))
     = Inr None
   \<and> parse_evaluation (''info depth 1'' @ replicate 4300 (CHR ''0'') @ '' score cp 25'')
     = Inr (Some \<lparr>score_type = ''cp'', score_value = FloatNum (Finite (1 / 4)), depth = 0\<rparr>)"
proof -
  have short: "py_int (''1'' @ replicate 309 (CHR ''0'')) = Some (10 ^ 309)"
    by (simp only: py_int_one_zeros) (simp add: int_max_str_digits_def)
  have long: "py_int (''1'' @ replicate 4300 (CHR ''0'')) = None"
    by (simp only: py_int_one_zeros) (simp add: int_max_str_digits_def)
  have r1: "parse_evaluation (''info score cp 1'' @ replicate 309 (CHR ''0'') @ '' depth 1'')
              = Inl OverflowError"
  proof -
    let ?sv = "''1'' @ replicate 309 (CHR ''0'')"
    let ?ts = "[''info'', ''score'', ''cp'', ?sv, ''depth'', ''1'']"
    have w: "\<forall>t \<in> set ?ts. t \<noteq> [] \<and> (\<forall>c \<in> set t. \<not> is_space c)"
      by (simp add: is_space_def)
    have s: "?ts = [''info''] @ ''score'' # ''cp'' # ?sv # [''depth'', ''1'']" by simp
    have n: "''score'' \<notin> set [''info'']" by simp
    have big: "float_overflow_int \<le> \<bar>10 ^ 309\<bar>" using overflow_int_le_power_10 by simp
    from cp_overflow_raises [OF w s n short big]
    have "parse_evaluation (py_join '' '' ?ts) = Inl OverflowError" .
    moreover have "py_join '' '' ?ts
                     = ''info score cp 1'' @ replicate 309 (CHR ''0'') @ '' depth 1''"
      by simp
    ultimately show ?thesis by (simp only:)
  qed
  have r2: "parse_evaluation (''info depth 1 score mate 1'' @ replicate 4300 (CHR ''0''))
              = Inr None"
  proof -
    let ?sv = "''1'' @ replicate 4300 (CHR ''0'')"
    let ?ts = "[''info'', ''depth'', ''1'', ''score'', ''mate'', ?sv]"
    have w: "\<forall>t \<in> set ?ts. t \<noteq> [] \<and> (\<forall>c \<in> set t. \<not> is_space c)"
      by (simp add: is_space_def)
    have s: "?ts = [''info'', ''depth'', ''1''] @ ''score'' # ''mate'' # ?sv # []" by simp
    have n: "''score'' \<notin> set [''info'', ''depth'', ''1'']" by simp
    from parse_evaluation_words [OF w s n] long
    have "parse_evaluation (py_join '' '' ?ts) = Inr None"
      by (simp add: make_evaluation_def)
    moreover have "py_join '' '' ?ts
                     = ''info depth 1 score mate 1'' @ replicate 4300 (CHR ''0'')"
      by simp
    ultimately show ?thesis by (simp only:)
  qed
  have r3: "parse_evaluation (''info depth 1'' @ replicate 4300 (CHR ''0'') @ '' score cp 25'')
     = Inr (Some \<lparr>score_type = ''cp'', score_value = FloatNum (Finite (1 / 4)), depth = 0\<rparr>)"
  proof -
    let ?sd = "''1'' @ replicate 4300 (CHR ''0'')"
    let ?ts = "[''info'', ''depth'', ?sd, ''score'', ''cp'', ''25'']"
    have w: "\<forall>t \<in> set ?ts. t \<noteq> [] \<and> (\<forall>c \<in> set t. \<not> is_space c)"
      by (simp add: is_space_def)
    have s: "?ts = [''info'', ''depth'', ?sd] @ ''score'' # ''cp'' # ''25'' # []" by simp
    have n: "''score'' \<notin> set [''info'', ''depth'', ?sd]" by simp
    have sd: "?ts = [''info''] @ ''depth'' # ?sd # [''score'', ''cp'', ''25'']" by simp
    have nd: "''depth'' \<notin> set [''info'']" by simp
    from parse_depth_first [OF sd nd] long have d: "parse_depth ?ts = 0" by simp
    have v: "py_int ''25'' = Some 25" by (simp add: parse_eval)
    from parse_evaluation_words [OF w s n] d v
    have "parse_evaluation (py_join '' '' ?ts)
            = Inr (Some \<lparr>score_type = ''cp'', score_value = FloatNum (Finite (1 / 4)),
                        depth = 0\<rparr>)"
      by (simp add: make_evaluation_def centipawns_25)
    moreover have "py_join '' '' ?ts
                     = ''info depth 1'' @ replicate 4300 (CHR ''0'') @ '' score cp 25''"
      by simp
    ultimately show ?thesis by (simp only:)
  qed
  from r1 r2 r3 show ?thesis by (intro conjI)
qed

subsection \<open>What the parser returns\<close>

lemma py_index_Some:
  "py_index ts key = Some i \<Longrightarrow> \<exists>a b. ts = a @ key # b \<and> key \<notin> set a \<and> length a = i"
proof (induction ts arbitrary: i)
  case Nil
  then show ?case by simp
next
  case (Cons t ts)
  show ?case
  proof (cases "t = key")
    case True
    with Cons.prems have "i = 0" by simp
    with True have "t # ts = [] @ key # ts \<and> key \<notin> set [] \<and> length ([]::'a list) = i" by simp
    then show ?thesis by blast
  next
    case False
    with Cons.prems obtain j where j: "py_index ts key = Some j" and i: "i = Suc j" by auto
    from Cons.IH [OF j] obtain a b where "ts = a @ key # b" "key \<notin> set a" "length a = j"
      by blast
    with False i have "t # ts = (t # a) @ key # b \<and> key \<notin> set (t # a) \<and> length (t # a) = i"
      by simp
    then show ?thesis by blast
  qed
qed

lemma parse_depth_negative:
  assumes "parse_depth ts < 0"
  shows "\<exists>a sd b. ts = a @ ''depth'' # sd # b \<and> ''depth'' \<notin> set a
           \<and> py_int sd = Some (parse_depth ts)"
proof -
  from assms obtain i where i: "py_index ts ''depth'' = Some i"
    by (auto simp: parse_depth_def split: if_splits option.splits)
  from assms i obtain sd where sd: "py_getitem ts (i + 1) = Some sd"
    by (auto simp: parse_depth_def split: if_splits option.splits)
  from assms i sd have d: "py_int sd = Some (parse_depth ts)"
    by (auto simp: parse_depth_def split: if_splits option.splits)
  from py_index_Some [OF i] obtain a b where ts: "ts = a @ ''depth'' # b"
    and a: "''depth'' \<notin> set a" and len: "length a = i" by blast
  from sd ts len obtain b' where "b = sd # b'"
    by (cases b) (auto simp: py_getitem_def nth_append split: if_splits)
  with ts a d show ?thesis by blast
qed

lemma parse_evaluation_Some:
  assumes "parse_evaluation line = Inr (Some e)"
  shows "depth e = parse_depth (py_split line)
       \<and> (score_type e = ''cp'' \<longrightarrow>
            (\<exists>v f. int_truediv_float v (Finite 100) = Inr f \<and> score_value e = FloatNum f))
       \<and> (score_type e = ''mate'' \<longrightarrow> (\<exists>v. score_value e = IntNum v))"
  using assms
  by (auto simp: parse_evaluation_def make_evaluation_def Let_def
        split: if_splits option.splits sum.splits)

text \<open>
  C9 (as amended).  An evaluation returned by the parser has a finite score value
  when its type is \<^verbatim>\<open>cp\<close> or \<^verbatim>\<open>mate\<close>, and its depth is negative only when the word
  after the first \<^verbatim>\<open>depth\<close> is the text of that negative integer; in the other cases of
  these two types it satisfies the invariant.  The fallback evaluation is centipawns,
  0.0 and the requested depth, and satisfies the invariant when the requested depth
  is not negative.
\<close>

theorem produced_evaluations:
  "(\<forall>line e. parse_evaluation line = Inr (Some e) \<longrightarrow>
       (score_type e = ''cp'' \<or> score_type e = ''mate'' \<longrightarrow> finite_number (score_value e))
     \<and> (depth e < 0 \<longrightarrow>
          (\<exists>a sd b. py_split line = a @ ''depth'' # sd # b \<and> ''depth'' \<notin> set a
             \<and> py_int sd = Some (depth e)))
     \<and> ((score_type e = ''cp'' \<or> score_type e = ''mate'')
          \<and> \<not> (\<exists>a sd b d. py_split line = a @ ''depth'' # sd # b \<and> ''depth'' \<notin> set a
                  \<and> py_int sd = Some d \<and> d < 0)
          \<longrightarrow> evaluation_invariant e))
   \<and> (\<forall>env depth_arg st p.
         finish_session env depth_arg st = Inr p \<and> cur_evaluation st = None \<longrightarrow>
           evaluation p = \<lparr>score_type = ''cp'', score_value = FloatNum (Finite 0),
                           depth = depth_arg\<rparr>
         \<and> (0 \<le> depth_arg \<longrightarrow> evaluation_invariant (evaluation p)))"
proof (intro conjI allI impI)
  fix line e
  assume p: "parse_evaluation line = Inr (Some e)"
  note facts = parse_evaluation_Some [OF p]
  {
    assume "score_type e = ''cp'' \<or> score_type e = ''mate''"
    then show fin: "finite_number (score_value e)"
    proof
      assume "score_type e = ''cp''"
      with facts obtain v f where f: "int_truediv_float v (Finite 100) = Inr f"
        and sv: "score_value e = FloatNum f" by blast
      from centipawn_value_finite [OF f] sv show ?thesis by (auto simp: finite_number_def)
    next
      assume "score_type e = ''mate''"
      with facts show ?thesis by (auto simp: finite_number_def)
    qed
  }
  note fin = this
  {
    assume neg: "depth e < 0"
    with facts have "parse_depth (py_split line) < 0" by simp
    from parse_depth_negative [OF this] facts
    show "\<exists>a sd b. py_split line = a @ ''depth'' # sd # b \<and> ''depth'' \<notin> set a
             \<and> py_int sd = Some (depth e)" by simp
  }
  note neg = this
  {
    assume h: "(score_type e = ''cp'' \<or> score_type e = ''mate'')
          \<and> \<not> (\<exists>a sd b d. py_split line = a @ ''depth'' # sd # b \<and> ''depth'' \<notin> set a
                  \<and> py_int sd = Some d \<and> d < 0)"
    then have "\<not> depth e < 0" using neg by blast
    with h fin show "evaluation_invariant e" by (simp add: evaluation_invariant_def)
  }
next
  fix env depth_arg st p
  assume h: "finish_session env depth_arg st = Inr p \<and> cur_evaluation st = None"
  then show ev: "evaluation p = \<lparr>score_type = ''cp'', score_value = FloatNum (Finite 0),
                           depth = depth_arg\<rparr>"
    by (auto simp: finish_session_def split: option.splits wait_result.splits if_splits)
  {
    assume "0 \<le> depth_arg"
    with ev show "evaluation_invariant (evaluation p)"
      by (simp add: evaluation_invariant_def finite_number_def)
  }
qed

theorem produced_evaluations_witness:
  "parse_evaluation ''info depth 12 score cp 25''
     = Inr (Some \<lparr>score_type = ''cp'', score_value = FloatNum (Finite (1 / 4)), depth = 12\<rparr>)
   \<and> evaluation_invariant
       \<lparr>score_type = ''cp'', score_value = FloatNum (Finite (1 / 4)), depth = 12\<rparr>
   \<and> finish_session
       \<lparr>popen_error = None, stdin_open = True, stdout_open = True, script_write_error = None,
        stdout_lines = LNil, quit_write_error = None, communicate = Exited 0 ''''\<rparr>
       8
       \<lparr>cur_bestmove = Some ''d2d4'', cur_ponder = None, cur_evaluation = None,
        best_depth = - 1\<rparr>
     = Inr \<lparr>bestmove = ''d2d4'', ponder = None,
            evaluation = \<lparr>score_type = ''cp'', score_value = FloatNum (Finite 0), depth = 8\<rparr>\<rparr>
   \<and> evaluation_invariant \<lparr>score_type = ''cp'', score_value = FloatNum (Finite 0), depth = 8\<rparr>"
proof -
  let ?e = "\<lparr>score_type = ''cp'', score_value = FloatNum (Finite (1 / 4)), depth = 12\<rparr>"
  let ?env = "\<lparr>popen_error = None, stdin_open = True, stdout_open = True,
               script_write_error = None, stdout_lines = LNil, quit_write_error = None,
               communicate = Exited 0 ''''\<rparr>"
  let ?st = "\<lparr>cur_bestmove = Some ''d2d4'', cur_ponder = None, cur_evaluation = None,
               best_depth = - 1\<rparr>"
  let ?p = "\<lparr>bestmove = ''d2d4'', ponder = None,
              evaluation = \<lparr>score_type = ''cp'', score_value = FloatNum (Finite 0), depth = 8\<rparr>\<rparr>"
  have p: "parse_evaluation ''info depth 12 score cp 25'' = Inr (Some ?e)"
    by (simp add: parse_eval py_split_def is_space_def centipawns)
  have f: "finish_session ?env 8 ?st = Inr ?p" by (simp add: finish_session_def)
  note parsed = produced_evaluations [THEN conjunct1, THEN spec, THEN spec, THEN mp, OF p]
  from parsed [THEN conjunct1] have "finite_number (score_value ?e)" by simp
  then have i1: "evaluation_invariant ?e" by (simp add: evaluation_invariant_def)
  have "finish_session ?env 8 ?st = Inr ?p \<and> cur_evaluation ?st = None" using f by simp
  note fell_back = produced_evaluations [THEN conjunct2, THEN spec, THEN spec, THEN spec,
      THEN spec, THEN mp, OF this]
  from fell_back [THEN conjunct2] have "evaluation_invariant (evaluation ?p)" by simp
  then have i2: "evaluation_invariant
                   \<lparr>score_type = ''cp'', score_value = FloatNum (Finite 0), depth = 8\<rparr>"
    by simp
  from p i1 f i2 show ?thesis by (intro conjI)
qed

text \<open>
  The claim as stated fails: the parser returns a negative depth when the line
  gives one, and for a score type other than \<^verbatim>\<open>cp\<close> and \<^verbatim>\<open>mate\<close> it returns what
  \<^verbatim>\<open>float\<close> makes of the word, an infinity for \<^verbatim>\<open>inf\<close>.
\<close>

theorem parser_breaks_invariant:
  "parse_evaluation ''info depth -3 score mate 1''
     = Inr (Some \<lparr>score_type = ''mate'', score_value = IntNum 1, depth = - 3\<rparr>)
   \<and> \<not> evaluation_invariant \<lparr>score_type = ''mate'', score_value = IntNum 1, depth = - 3\<rparr>
   \<and> parse_evaluation ''info depth 3 score wdl inf''
     = Inr (Some \<lparr>score_type = ''wdl'', score_value = FloatNum PosInf, depth = 3\<rparr>)
   \<and> \<not> evaluation_invariant \<lparr>score_type = ''wdl'', score_value = FloatNum PosInf, depth = 3\<rparr>"
proof -
  have "py_float ''inf'' = Some PosInf"
    by (simp add: py_float_def is_digit_def py_lower_def lower_char_def)
  then have "parse_evaluation ''info depth 3 score wdl inf''
     = Inr (Some \<lparr>score_type = ''wdl'', score_value = FloatNum PosInf, depth = 3\<rparr>)"
    by (simp add: parse_eval py_split_def is_space_def)
  moreover have "parse_evaluation ''info depth -3 score mate 1''
     = Inr (Some \<lparr>score_type = ''mate'', score_value = IntNum 1, depth = - 3\<rparr>)"
    by (simp add: parse_eval py_split_def is_space_def)
  ultimately show ?thesis by (simp add: evaluation_invariant_def finite_number_def)
qed

text \<open>
  C5, where the code departs from the claim.  An \<^verbatim>\<open>info\<close> line whose centipawn score
  is \<open>-10^309\<close> makes the parser raise OverflowError, which none of its \<^verbatim>\<open>except\<close>
  clauses catches; the read loop does not go on to the \<^verbatim>\<open>bestmove\<close> line that
  follows, and the exception reaches the caller.
\<close>

theorem overflow_escapes_parser:
  "parse_evaluation (''info depth 20 score cp -1'' @ replicate 309 (CHR ''0''))
     = Inl OverflowError
   \<and> query_engine
       \<lparr>popen_error = None, stdin_open = True, stdout_open = True, script_write_error = None,
        stdout_lines =
          llist_of [''info depth 20 score cp -1'' @ replicate 309 (CHR ''0'') @ ''\<newline>'',
                    ''bestmove e2e4\<newline>''],
        quit_write_error = None, communicate = Exited 0 ''''\<rparr>
       ''startpos'' 20 None
     = Some (Inl OverflowError)"
proof -
  let ?sv = "''-1'' @ replicate 309 (CHR ''0'')"
  let ?line = "''info depth 20 score cp -1'' @ replicate 309 (CHR ''0'')"
  let ?ts = "[''info'', ''depth'', ''20'', ''score'', ''cp'', ?sv]"
  have w: "\<forall>t \<in> set ?ts. t \<noteq> [] \<and> (\<forall>c \<in> set t. \<not> is_space c)"
    by (simp add: is_space_def)
  have s: "?ts = [''info'', ''depth'', ''20''] @ ''score'' # ''cp'' # ?sv # []" by simp
  have n: "''score'' \<notin> set [''info'', ''depth'', ''20'']" by simp
  have big: "float_overflow_int \<le> \<bar>- (10 ^ 309)\<bar>" using overflow_int_le_power_10 by simp
  have short: "py_int ?sv = Some (- (10 ^ 309))"
    by (simp only: py_int_minus_one_zeros) (simp add: int_max_str_digits_def)
  from cp_overflow_raises [OF w s n short big]
  have "parse_evaluation (py_join '' '' ?ts) = Inl OverflowError" .
  moreover have "py_join '' '' ?ts = ?line" by simp
  ultimately have parse: "parse_evaluation ?line = Inl OverflowError" by (simp only:)
  have "\<not> is_space (last ?line)" by (simp add: is_space_def)
  moreover have "\<not> is_space (hd ?line)" by (simp add: is_space_def)
  moreover have "\<forall>c \<in> set ''\<newline>''. is_space c" by (simp add: is_space_def)
  moreover have "?line \<noteq> []" by simp
  ultimately have "py_strip ([] @ ?line @ ''\<newline>'') = ?line"
    by (intro py_strip_core) simp_all
  then have strip: "py_strip (?line @ ''\<newline>'') = ?line" by simp
  have "py_startswith ?line ''info''" by (simp add: py_startswith_def)
  with strip parse have "loop_body (?line @ ''\<newline>'') init_state = Raise OverflowError"
    by (simp add: loop_body_def track_info_def)
  then have "read_loop (llist_of [?line @ ''\<newline>'', ''bestmove e2e4\<newline>'']) init_state
               = Some (Inl OverflowError)"
    by (simp add: read_loop_LCons)
  then have "query_engine
       \<lparr>popen_error = None, stdin_open = True, stdout_open = True, script_write_error = None,
        stdout_lines = llist_of [?line @ ''\<newline>'', ''bestmove e2e4\<newline>''],
        quit_write_error = None, communicate = Exited 0 ''''\<rparr>
       ''startpos'' 20 None
     = Some (Inl OverflowError)"
    by (simp add: query_engine_def start_eval str_nat.simps)
  with parse show ?thesis by simp
qed

subsection \<open>The script as the engine reads it\<close>

lemma lines_from_line:
  "CHR 0x0A \<notin> set l \<Longrightarrow>
     lines_from cur (l @ CHR 0x0A # rest) = (cur @ l) # lines_from [] rest"
  by (induction l arbitrary: cur) auto

lemma engine_lines_commands:
  "\<forall>c \<in> set cmds. CHR 0x0A \<notin> set c \<Longrightarrow>
     engine_lines (map (\<lambda>command. command @ [CHR 0x0A]) cmds) = cmds"
proof (induction cmds)
  case Nil
  show ?case by (simp add: engine_lines_def)
next
  case (Cons c cs)
  then have c: "CHR 0x0A \<notin> set c"
    and rest: "lines_from [] (concat (map (\<lambda>command. command @ [CHR 0x0A]) cs)) = cs"
    by (simp_all add: engine_lines_def)
  have "engine_lines (map (\<lambda>command. command @ [CHR 0x0A]) (c # cs))
          = lines_from [] (c @ CHR 0x0A # concat (map (\<lambda>command. command @ [CHR 0x0A]) cs))"
    by (simp add: engine_lines_def)
  also have "\<dots> = ([] @ c) # lines_from [] (concat (map (\<lambda>command. command @ [CHR 0x0A]) cs))"
    by (rule lines_from_line [OF c])
  finally show ?case using rest by simp
qed

lemma py_join_chars: "set (py_join sep xs) \<subseteq> set sep \<union> (\<Union>x \<in> set xs. set x)"
  by (induction xs rule: induct_list012) auto

lemma str_int_no_line_feed: "CHR 0x0A \<notin> set (str_int n)"
proof
  assume "CHR 0x0A \<in> set (str_int n)"
  with str_int_chars [of n] have "is_digit (CHR 0x0A) \<or> CHR 0x0A = CHR ''-''" by blast
  then show False by (simp add: is_digit_def)
qed

lemma build_commands_cases:
  "build_commands fen depth_arg moves =
     (if \<bar>depth_arg\<bar> < 10 ^ int_max_str_digits
      then Inr [''uci'', ''isready'', ''ucinewgame'',
                (if moves \<noteq> None \<and> moves \<noteq> Some [] then
                   (if fen = ''startpos''
                    then ''position startpos moves '' @ py_join '' '' (the moves)
                    else ''position fen '' @ fen @ '' moves '' @ py_join '' '' (the moves))
                 else if fen = ''startpos'' then ''position startpos''
                 else ''position fen '' @ fen),
                ''go depth '' @ str_int depth_arg]
      else Inl ValueError)"
  by (cases moves) (simp_all add: build_commands_def py_str_int_cases Let_def)

lemma start_session_reaches_loop:
  "(\<exists>written. start_session env fen depth_arg moves = Inr written)
     \<longleftrightarrow> popen_error env = None \<and> stdin_open env \<and> stdout_open env
         \<and> script_write_error env = None \<and> \<bar>depth_arg\<bar> < 10 ^ int_max_str_digits"
  by (auto simp: start_session_def build_commands_cases
           split: option.splits py_error.splits if_splits)

lemma start_session_written:
  assumes "start_session env fen depth_arg moves = Inr written"
  shows "build_commands fen depth_arg moves
           = Inr [''uci'', ''isready'', ''ucinewgame'',
                (if moves \<noteq> None \<and> moves \<noteq> Some [] then
                   (if fen = ''startpos''
                    then ''position startpos moves '' @ py_join '' '' (the moves)
                    else ''position fen '' @ fen @ '' moves '' @ py_join '' '' (the moves))
                 else if fen = ''startpos'' then ''position startpos''
                 else ''position fen '' @ fen),
                ''go depth '' @ str_int depth_arg]
       \<and> (\<forall>cmds. build_commands fen depth_arg moves = Inr cmds
             \<longrightarrow> written = map (\<lambda>command. command @ [CHR 0x0A]) cmds)"
proof -
  from assms have "\<exists>w. start_session env fen depth_arg moves = Inr w" by blast
  then have "\<bar>depth_arg\<bar> < 10 ^ int_max_str_digits" by (simp only: start_session_reaches_loop)
  then have b: "build_commands fen depth_arg moves
           = Inr [''uci'', ''isready'', ''ucinewgame'',
                (if moves \<noteq> None \<and> moves \<noteq> Some [] then
                   (if fen = ''startpos''
                    then ''position startpos moves '' @ py_join '' '' (the moves)
                    else ''position fen '' @ fen @ '' moves '' @ py_join '' '' (the moves))
                 else if fen = ''startpos'' then ''position startpos''
                 else ''position fen '' @ fen),
                ''go depth '' @ str_int depth_arg]"
    by (simp only: build_commands_cases if_True)
  have "written = map (\<lambda>command. command @ [CHR 0x0A]) cmds"
    if "build_commands fen depth_arg moves = Inr cmds" for cmds
    using assms that
    by (simp add: start_session_def split: option.splits py_error.splits if_splits)
  with b show ?thesis by blast
qed

lemma py_join_no_line_feed:
  assumes "\<forall>m \<in> set ms. CHR 0x0A \<notin> set m"
  shows "CHR 0x0A \<notin> set (py_join '' '' ms)"
proof
  assume "CHR 0x0A \<in> set (py_join '' '' ms)"
  with py_join_chars [of "'' ''" ms] have "CHR 0x0A \<in> set '' '' \<union> (\<Union>x \<in> set ms. set x)"
    by blast
  with assms show False by simp
qed

text \<open>
  C4 (as amended).  A session reaches the read loop exactly when the requested depth
  has at most 4300 decimal digits, so that the command \<^verbatim>\<open>go depth <depth>\<close> can be
  formatted, the process starts, both pipes are there and the script can be written.
  The strings written to the engine's standard input are then, in order, \<^verbatim>\<open>uci\<close>,
  \<^verbatim>\<open>isready\<close>, \<^verbatim>\<open>ucinewgame\<close>, one \<^verbatim>\<open>position\<close> command and \<^verbatim>\<open>go depth <depth>\<close>, each
  ended by a line feed.  The \<^verbatim>\<open>position\<close> command is \<^verbatim>\<open>position startpos\<close> or
  \<^verbatim>\<open>position fen <fen>\<close> when no move is given, and carries \<^verbatim>\<open>moves\<close> and the moves
  joined by single spaces, in the caller's order, when there are moves.  When neither
  the position string nor a move holds a line feed, the engine reads exactly these
  five lines.
\<close>

theorem script_transmitted_in_order:
  "((\<exists>written. start_session env fen depth_arg moves = Inr written)
      \<longleftrightarrow> popen_error env = None \<and> stdin_open env \<and> stdout_open env
          \<and> script_write_error env = None \<and> \<bar>depth_arg\<bar> < 10 ^ int_max_str_digits)
   \<and> (\<forall>written. start_session env fen depth_arg moves = Inr written \<longrightarrow>
        (\<exists>position.
           written = [''uci\<newline>'', ''isready\<newline>'', ''ucinewgame\<newline>'', position @ ''\<newline>'',
                      ''go depth '' @ str_int depth_arg @ ''\<newline>'']
         \<and> ((moves = None \<or> moves = Some []) \<and> fen = ''startpos''
              \<longrightarrow> position = ''position startpos'')
         \<and> ((moves = None \<or> moves = Some []) \<and> fen \<noteq> ''startpos''
              \<longrightarrow> position = ''position fen '' @ fen)
         \<and> (\<forall>ms. moves = Some ms \<and> ms \<noteq> [] \<and> fen = ''startpos''
              \<longrightarrow> position = ''position startpos moves '' @ py_join '' '' ms)
         \<and> (\<forall>ms. moves = Some ms \<and> ms \<noteq> [] \<and> fen \<noteq> ''startpos''
              \<longrightarrow> position = ''position fen '' @ fen @ '' moves '' @ py_join '' '' ms)
         \<and> (CHR 0x0A \<notin> set fen
              \<and> (\<forall>ms m. moves = Some ms \<and> m \<in> set ms \<longrightarrow> CHR 0x0A \<notin> set m)
              \<longrightarrow> engine_lines written
                    = [''uci'', ''isready'', ''ucinewgame'', position,
                       ''go depth '' @ str_int depth_arg])))"
proof (intro conjI allI impI)
  show "(\<exists>written. start_session env fen depth_arg moves = Inr written)
      \<longleftrightarrow> popen_error env = None \<and> stdin_open env \<and> stdout_open env
          \<and> script_write_error env = None \<and> \<bar>depth_arg\<bar> < 10 ^ int_max_str_digits"
    by (rule start_session_reaches_loop)
next
  fix written
  assume start: "start_session env fen depth_arg moves = Inr written"
  define position where "position =
    (if moves \<noteq> None \<and> moves \<noteq> Some [] then
       (if fen = ''startpos''
        then ''position startpos moves '' @ py_join '' '' (the moves)
        else ''position fen '' @ fen @ '' moves '' @ py_join '' '' (the moves))
     else if fen = ''startpos'' then ''position startpos''
     else ''position fen '' @ fen)"
  let ?cmds = "[''uci'', ''isready'', ''ucinewgame'', position, ''go depth '' @ str_int depth_arg]"
  from start_session_written [OF start]
  have w: "written = map (\<lambda>command. command @ [CHR 0x0A]) ?cmds"
    unfolding position_def by blast
  then have w5: "written = [''uci\<newline>'', ''isready\<newline>'', ''ucinewgame\<newline>'', position @ ''\<newline>'',
                      ''go depth '' @ str_int depth_arg @ ''\<newline>'']"
    by simp
  have p1: "(moves = None \<or> moves = Some []) \<and> fen = ''startpos''
              \<longrightarrow> position = ''position startpos''"
    by (auto simp: position_def)
  have p2: "(moves = None \<or> moves = Some []) \<and> fen \<noteq> ''startpos''
              \<longrightarrow> position = ''position fen '' @ fen"
    by (auto simp: position_def)
  have p3: "\<forall>ms. moves = Some ms \<and> ms \<noteq> [] \<and> fen = ''startpos''
              \<longrightarrow> position = ''position startpos moves '' @ py_join '' '' ms"
    by (auto simp: position_def)
  have p4: "\<forall>ms. moves = Some ms \<and> ms \<noteq> [] \<and> fen \<noteq> ''startpos''
              \<longrightarrow> position = ''position fen '' @ fen @ '' moves '' @ py_join '' '' ms"
    by (auto simp: position_def)
  have ln: "engine_lines written = ?cmds"
    if clean: "CHR 0x0A \<notin> set fen
               \<and> (\<forall>ms m. moves = Some ms \<and> m \<in> set ms \<longrightarrow> CHR 0x0A \<notin> set m)"
  proof -
    have j: "CHR 0x0A \<notin> set (py_join '' '' (the moves))" if "moves \<noteq> None"
    proof -
      from that obtain ms where ms: "moves = Some ms" by blast
      with clean have "\<forall>m \<in> set ms. CHR 0x0A \<notin> set m" by blast
      from py_join_no_line_feed [OF this] ms show ?thesis by simp
    qed
    have "CHR 0x0A \<notin> set position"
      using clean j by (auto simp: position_def)
    moreover have "CHR 0x0A \<notin> set (''go depth '' @ str_int depth_arg)"
      using str_int_no_line_feed [of depth_arg] by simp
    ultimately have "\<forall>c \<in> set ?cmds. CHR 0x0A \<notin> set c" by simp
    from engine_lines_commands [OF this] w show ?thesis by (simp only:)
  qed
  from w5 p1 p2 p3 p4 ln
  show "\<exists>position.
           written = [''uci\<newline>'', ''isready\<newline>'', ''ucinewgame\<newline>'', position @ ''\<newline>'',
                      ''go depth '' @ str_int depth_arg @ ''\<newline>'']
         \<and> ((moves = None \<or> moves = Some []) \<and> fen = ''startpos''
              \<longrightarrow> position = ''position startpos'')
         \<and> ((moves = None \<or> moves = Some []) \<and> fen \<noteq> ''startpos''
              \<longrightarrow> position = ''position fen '' @ fen)
         \<and> (\<forall>ms. moves = Some ms \<and> ms \<noteq> [] \<and> fen = ''startpos''
              \<longrightarrow> position = ''position startpos moves '' @ py_join '' '' ms)
         \<and> (\<forall>ms. moves = Some ms \<and> ms \<noteq> [] \<and> fen \<noteq> ''startpos''
              \<longrightarrow> position = ''position fen '' @ fen @ '' moves '' @ py_join '' '' ms)
         \<and> (CHR 0x0A \<notin> set fen
              \<and> (\<forall>ms m. moves = Some ms \<and> m \<in> set ms \<longrightarrow> CHR 0x0A \<notin> set m)
              \<longrightarrow> engine_lines written
                    = [''uci'', ''isready'', ''ucinewgame'', position,
                       ''go depth '' @ str_int depth_arg])"
    by (intro exI [of _ position] conjI impI) blast+
qed

theorem script_transmitted_in_order_witness:
  "start_session
     \<lparr>popen_error = None, stdin_open = True, stdout_open = True, script_write_error = None,
      stdout_lines = LNil, quit_write_error = None, communicate = Exited 0 ''''\<rparr>
     ''startpos'' 12 (Some [''e2e4'', ''e7e5''])
   = Inr [''uci\<newline>'', ''isready\<newline>'', ''ucinewgame\<newline>'',
          ''position startpos moves e2e4 e7e5\<newline>'', ''go depth 12\<newline>'']
   \<and> engine_lines [''uci\<newline>'', ''isready\<newline>'', ''ucinewgame\<newline>'',
          ''position startpos moves e2e4 e7e5\<newline>'', ''go depth 12\<newline>'']
     = [''uci'', ''isready'', ''ucinewgame'', ''position startpos moves e2e4 e7e5'',
        ''go depth 12'']
   \<and> start_session
     \<lparr>popen_error = None, stdin_open = True, stdout_open = True, script_write_error = None,
      stdout_lines = LNil, quit_write_error = None, communicate = Exited 0 ''''\<rparr>
     ''8/8/8/8/8/8/8/K1k5 w - - 0 1'' 3 None
   = Inr [''uci\<newline>'', ''isready\<newline>'', ''ucinewgame\<newline>'',
          ''position fen 8/8/8/8/8/8/8/K1k5 w - - 0 1\<newline>'', ''go depth 3\<newline>'']"
proof -
  let ?env = "\<lparr>popen_error = None, stdin_open = True, stdout_open = True,
               script_write_error = None, stdout_lines = LNil, quit_write_error = None,
               communicate = Exited 0 ''''\<rparr>"
  have "2 \<le> int_max_str_digits" by (simp add: int_max_str_digits_def)
  then have lim: "\<bar>12::int\<bar> < 10 ^ int_max_str_digits" "\<bar>3::int\<bar> < 10 ^ int_max_str_digits"
    by (intro within_limit [of _ 2]; simp)+
  have s12: "str_int 12 = ''12''" and s3: "str_int 3 = ''3''"
    by (simp_all add: str_int_def digit_char_def str_nat.simps)
  note main1 = script_transmitted_in_order
    [of ?env "''startpos''" 12 "Some [''e2e4'', ''e7e5'']"]
  note main2 = script_transmitted_in_order
    [of ?env "''8/8/8/8/8/8/8/K1k5 w - - 0 1''" 3 None]
  from main1 lim(1)
  obtain w1 where w1: "start_session ?env ''startpos'' 12 (Some [''e2e4'', ''e7e5'']) = Inr w1"
    by auto
  from main2 lim(2)
  obtain w2 where w2: "start_session ?env ''8/8/8/8/8/8/8/K1k5 w - - 0 1'' 3 None = Inr w2"
    by auto
  from main1 [THEN conjunct2, THEN spec, THEN mp, OF w1]
  have e1: "w1 = [''uci\<newline>'', ''isready\<newline>'', ''ucinewgame\<newline>'',
          ''position startpos moves e2e4 e7e5\<newline>'', ''go depth 12\<newline>'']"
    and l1: "engine_lines w1
     = [''uci'', ''isready'', ''ucinewgame'', ''position startpos moves e2e4 e7e5'',
        ''go depth 12'']"
    by (auto simp: s12)
  from main2 [THEN conjunct2, THEN spec, THEN mp, OF w2]
  have e2: "w2 = [''uci\<newline>'', ''isready\<newline>'', ''ucinewgame\<newline>'',
          ''position fen 8/8/8/8/8/8/8/K1k5 w - - 0 1\<newline>'', ''go depth 3\<newline>'']"
    by (auto simp: s3)
  from w1 w2 e1 e2 l1 show ?thesis by simp
qed

text \<open>
  The claim as stated fails.  A position string that holds a line feed puts a line
  of its own into the script: the engine reads six lines, one of them the command
  \<^verbatim>\<open>quit\<close> that the caller's string carries.  And for a depth of 4301 digits the
  formatting of \<^verbatim>\<open>go depth <depth>\<close> raises ValueError before the process is started:
  nothing is transmitted.
\<close>

theorem script_line_feed_in_position:
  "start_session
     \<lparr>popen_error = None, stdin_open = True, stdout_open = True, script_write_error = None,
      stdout_lines = LNil, quit_write_error = None, communicate = Exited 0 ''''\<rparr>
     ''8/8/8/8/8/8/8/K1k5 w - - 0 1\<newline>quit'' 3 None
   = Inr [''uci\<newline>'', ''isready\<newline>'', ''ucinewgame\<newline>'',
          ''position fen 8/8/8/8/8/8/8/K1k5 w - - 0 1\<newline>quit\<newline>'', ''go depth 3\<newline>'']
   \<and> engine_lines [''uci\<newline>'', ''isready\<newline>'', ''ucinewgame\<newline>'',
          ''position fen 8/8/8/8/8/8/8/K1k5 w - - 0 1\<newline>quit\<newline>'', ''go depth 3\<newline>'']
     = [''uci'', ''isready'', ''ucinewgame'', ''position fen 8/8/8/8/8/8/8/K1k5 w - - 0 1'',
        ''quit'', ''go depth 3'']
   \<and> start_session
     \<lparr>popen_error = None, stdin_open = True, stdout_open = True, script_write_error = None,
      stdout_lines = LNil, quit_write_error = None, communicate = Exited 0 ''''\<rparr>
     ''startpos'' (10 ^ int_max_str_digits) None
   = Inl ValueError"
proof -
  let ?env = "\<lparr>popen_error = None, stdin_open = True, stdout_open = True,
               script_write_error = None, stdout_lines = LNil, quit_write_error = None,
               communicate = Exited 0 ''''\<rparr>"
  have a: "start_session ?env ''8/8/8/8/8/8/8/K1k5 w - - 0 1\<newline>quit'' 3 None
   = Inr [''uci\<newline>'', ''isready\<newline>'', ''ucinewgame\<newline>'',
          ''position fen 8/8/8/8/8/8/8/K1k5 w - - 0 1\<newline>quit\<newline>'', ''go depth 3\<newline>'']"
    by (simp add: start_eval str_int_def digit_char_def str_nat.simps)
  have b: "engine_lines [''uci\<newline>'', ''isready\<newline>'', ''ucinewgame\<newline>'',
          ''position fen 8/8/8/8/8/8/8/K1k5 w - - 0 1\<newline>quit\<newline>'', ''go depth 3\<newline>'']
     = [''uci'', ''isready'', ''ucinewgame'', ''position fen 8/8/8/8/8/8/8/K1k5 w - - 0 1'',
        ''quit'', ''go depth 3'']"
    by (simp add: engine_lines_def)
  have "build_commands ''startpos'' (10 ^ int_max_str_digits) None = Inl ValueError"
    by (simp only: build_commands_cases) simp
  then have c: "start_session ?env ''startpos'' (10 ^ int_max_str_digits) None = Inl ValueError"
    by (simp add: start_session_def)
  from a b c show ?thesis by (intro conjI)
qed

end
